theory Spec2Isabelle
  imports Main "HOL-Library.Word" "HOL-Library.Multiset"
begin

section \<open>Data model of the wallet transaction sender\<close>

text \<open>
  The development follows \<^verbatim>\<open>src/wallet/WalletTransactionSender.cpp\<close>. Amounts of
  type \<^verbatim>\<open>uint64_t\<close> are 64-bit words, so every addition wraps as the machine's does.
  Identifiers and positions of type \<^verbatim>\<open>size_t\<close> are natural numbers. Keys, hashes and
  parsed addresses are opaque byte strings.
\<close>

type_synonym u64 = "64 word"
type_synonym TransactionId = nat
type_synonym TransferId = nat
type_synonym AccountPublicAddress = string
type_synonym public_key = string

text \<open>
  The error codes of \<^verbatim>\<open>cryptonote::error\<close> that the sender raises, and one
  constructor for every other code a collaborator may hand to a callback. A
  \<^verbatim>\<open>std::error_code\<close> is an optional error: \<open>None\<close> is the empty code (success).
\<close>

datatype error =
    INTERNAL_WALLET_ERROR
  | MIXIN_COUNT_TOO_BIG
  | BAD_ADDRESS
  | TRANSACTION_SIZE_TOO_BIG
  | WRONG_AMOUNT
  | SUM_OVERFLOW
  | ZERO_DESTINATION
  | TX_CANCELLED
  | OTHER_ERROR nat

type_synonym error_code = "error option"

text \<open>
  \<^verbatim>\<open>CryptoNote::Transfer\<close>. Its \<open>amount\<close> is a signed 64-bit integer in the code (the
  source compares it with \<open>0\<close> and with a value cast to \<^verbatim>\<open>int64_t\<close>); the word holds its
  bits and \<open>sint\<close> reads its value.
\<close>

record Transfer =
  address :: string
  amount :: u64

text \<open>
  \<^verbatim>\<open>TransactionOutputInformation\<close>: a coin of the wallet, with the fields the sender
  reads.
\<close>

record TransactionOutputInformation =
  amount :: u64
  globalOutputIndex :: u64
  outputInTransaction :: nat
  transactionPublicKey :: public_key
  outputKey :: public_key

text \<open>
  The decoy data of \<^verbatim>\<open>COMMAND_RPC_GET_RANDOM_OUTPUTS_FOR_AMOUNTS\<close>, the source and
  destination entries of a transaction, and the dust policy. An \<^verbatim>\<open>output_entry\<close> is the
  pair of a global index and a key.
\<close>

record out_entry =
  global_amount_index :: u64
  out_key :: public_key

record outs_for_amount =
  amount :: u64
  outs :: "out_entry list"

type_synonym output_entry = "u64 \<times> public_key"

record tx_source_entry =
  outputs :: "output_entry list"
  real_output :: nat
  real_out_tx_key :: public_key
  real_output_in_tx_index :: nat
  amount :: u64

record tx_destination_entry =
  amount :: u64
  addr :: AccountPublicAddress

record TxDustPolicy =
  dustThreshold :: u64
  addToFee :: bool
  addrForDust :: AccountPublicAddress

record SendTransactionContext =
  transactionId :: TransactionId
  outs :: "outs_for_amount list"
  foundMoney :: u64
  selectedTransfers :: "TransactionOutputInformation list"
  dustPolicy :: TxDustPolicy
  mixIn :: u64

text \<open>An assembled transaction is opaque: the blob the construction primitive returns.\<close>

type_synonym Transaction = string

datatype WalletEvent =
    WalletSendTransactionCompletedEvent TransactionId error_code
  | WalletActualBalanceUpdatedEvent u64
  | WalletPendingBalanceUpdatedEvent u64

text \<open>
  The two requests the sender hands to its driver. Each carries the context its bound
  callback receives: \<^verbatim>\<open>sendTransactionRandomOutsByAmount\<close> for the first,
  \<^verbatim>\<open>relayTransactionCallback\<close> for the second.
\<close>

datatype WalletRequest =
    WalletGetRandomOutsByAmountsRequest "u64 list" u64 SendTransactionContext
  | WalletRelayTransactionRequest Transaction SendTransactionContext

text \<open>
  The calls \<^verbatim>\<open>decompose_amount_into_digits\<close> makes to its two handlers, in order.
\<close>

datatype handler_call = Chunk u64 | Dust u64

fun call_value :: "handler_call \<Rightarrow> u64" where
  "call_value (Chunk c) = c"
| "call_value (Dust d) = d"

subsection \<open>The transaction cache\<close>

text \<open>
  Modelled from the spec: the class \<^verbatim>\<open>WalletUserTransactionsCache\<close> is not among the
  sources; the sender only calls it. The spec describes it as a mapping keyed by
  transaction and transfer identifiers holding, for each transaction, the total signed
  amount (negative for a net spend), fee, extra, unlock time, first transfer id and count,
  hash and sending state, together with the coins reserved by pending sends. A record is
  pending until \<^verbatim>\<open>updateTransactionSendingState\<close> finalizes it with an error code.
\<close>

datatype TransactionState = Pending | Finalized error_code

record TransactionInfo =
  firstTransferId :: TransferId
  transferCount :: nat
  totalAmount :: u64
  fee :: u64
  extra :: string
  unlockTime :: u64
  hash :: string
  state :: TransactionState

record WalletUserTransactionsCache =
  transactions :: "TransactionInfo list"
  transfers :: "Transfer list"
  usedOutputs :: "TransactionOutputInformation list"
  unconfirmedAmounts :: "u64 list"

definition addNewTransaction ::
  "WalletUserTransactionsCache \<Rightarrow> u64 \<Rightarrow> u64 \<Rightarrow> string \<Rightarrow> Transfer list \<Rightarrow> u64
     \<Rightarrow> TransactionId \<times> WalletUserTransactionsCache" where
  "addNewTransaction c amt fe ext trs unlock =
     (length (transactions c),
      c\<lparr>transactions := transactions c @
           [\<lparr>firstTransferId = length (transfers c), transferCount = length trs,
             totalAmount = - amt, fee = fe, extra = ext, unlockTime = unlock,
             hash = [], state = Pending\<rparr>],
        transfers := transfers c @ trs\<rparr>)"

definition getTransaction :: "WalletUserTransactionsCache \<Rightarrow> TransactionId \<Rightarrow> TransactionInfo option" where
  "getTransaction c i = (if i < length (transactions c) then Some (transactions c ! i) else None)"

definition getTransfer :: "WalletUserTransactionsCache \<Rightarrow> TransferId \<Rightarrow> Transfer option" where
  "getTransfer c i = (if i < length (transfers c) then Some (transfers c ! i) else None)"

definition updateTransactionSendingState ::
  "WalletUserTransactionsCache \<Rightarrow> TransactionId \<Rightarrow> error_code \<Rightarrow> WalletUserTransactionsCache" where
  "updateTransactionSendingState c i ec =
     c\<lparr>transactions := (transactions c)[i := (transactions c ! i)\<lparr>state := Finalized ec\<rparr>]\<rparr>"

definition updateTransaction ::
  "WalletUserTransactionsCache \<Rightarrow> TransactionId \<Rightarrow> Transaction \<Rightarrow> u64
     \<Rightarrow> TransactionOutputInformation list \<Rightarrow> WalletUserTransactionsCache" where
  "updateTransaction c i tx amt used =
     c\<lparr>transactions := (transactions c)[i := (transactions c ! i)\<lparr>totalAmount := - amt\<rparr>],
       usedOutputs := usedOutputs c @ used,
       unconfirmedAmounts := unconfirmedAmounts c @ [amt]\<rparr>"

definition isUsed :: "WalletUserTransactionsCache \<Rightarrow> TransactionOutputInformation \<Rightarrow> bool" where
  "isUsed c out = (out \<in> set (usedOutputs c))"

definition unconfrimedOutsAmount :: "WalletUserTransactionsCache \<Rightarrow> u64" where
  "unconfrimedOutsAmount c = sum_list (map TransactionOutputInformation.amount (usedOutputs c))"

definition unconfirmedTransactionsAmount :: "WalletUserTransactionsCache \<Rightarrow> u64" where
  "unconfirmedTransactionsAmount c = sum_list (unconfirmedAmounts c)"

subsection \<open>The sender and its collaborators\<close>

text \<open>
  The collaborators the sender calls and whose code lies outside this file: the currency's
  address parser, the digit decomposition, the construction primitive with the blob size
  and hash of its result, and the transfers container (its unlocked outputs and its two
  balances). They are parameters of the model.
\<close>

record Collaborators =
  parseAccountAddressString :: "string \<Rightarrow> AccountPublicAddress option"
  decompose_amount :: "u64 \<Rightarrow> u64 \<Rightarrow> handler_call list"
  construct_tx :: "tx_source_entry list \<Rightarrow> tx_destination_entry list \<Rightarrow> string \<Rightarrow> u64
                     \<Rightarrow> Transaction option"
  get_object_blobsize :: "Transaction \<Rightarrow> nat"
  get_transaction_hash :: "Transaction \<Rightarrow> string"
  getOutputs :: "TransactionOutputInformation list"
  balanceUnlocked :: u64
  balanceNotUnlocked :: u64

record WalletTransactionSender =
  m_isStoping :: bool
  m_transactionsCache :: WalletUserTransactionsCache
  m_account_address :: AccountPublicAddress
  m_upperTransactionSizeLimit :: nat

subsection \<open>countNeededMoney\<close>

text \<open>
  The loop of \<^verbatim>\<open>countNeededMoney\<close>, with the running \<^verbatim>\<open>needed_money\<close> as the
  accumulator. Every \<^verbatim>\<open>throwIf\<close> is a branch returning \<open>Inl\<close>.
\<close>

fun countNeededMoney_loop :: "u64 \<Rightarrow> Transfer list \<Rightarrow> error + u64" where
  "countNeededMoney_loop needed_money [] = Inr needed_money"
| "countNeededMoney_loop needed_money (transfer # rest) =
     (if Transfer.amount transfer = 0 then Inl ZERO_DESTINATION
      else if sint (Transfer.amount transfer) < 0 then Inl WRONG_AMOUNT
      else
        let needed_money' = needed_money + Transfer.amount transfer in
        if sint needed_money' < sint (Transfer.amount transfer) then Inl SUM_OVERFLOW
        else countNeededMoney_loop needed_money' rest)"

definition countNeededMoney :: "u64 \<Rightarrow> Transfer list \<Rightarrow> error + u64" where
  "countNeededMoney fe trs = countNeededMoney_loop fe trs"

subsection \<open>createChangeDestinations, constructTx, makeCompleteEvent\<close>

definition createChangeDestinations ::
  "AccountPublicAddress \<Rightarrow> u64 \<Rightarrow> u64 \<Rightarrow> tx_destination_entry \<Rightarrow> tx_destination_entry" where
  "createChangeDestinations adr neededMoney found changeDts =
     (if neededMoney < found
      then changeDts\<lparr>addr := adr, tx_destination_entry.amount := found - neededMoney\<rparr>
      else changeDts)"

text \<open>
  \<^verbatim>\<open>constructTx\<close>: the primitive's failure and the size limit are the two throws. The keys
  are those of the sender and are part of the primitive.
\<close>

definition constructTx ::
  "Collaborators \<Rightarrow> tx_source_entry list \<Rightarrow> tx_destination_entry list \<Rightarrow> string \<Rightarrow> u64 \<Rightarrow> nat
     \<Rightarrow> error + Transaction" where
  "constructTx env sources splittedDests ext unlockTimestamp sizeLimit =
     (case construct_tx env sources splittedDests ext unlockTimestamp of
        None \<Rightarrow> Inl INTERNAL_WALLET_ERROR
      | Some tx \<Rightarrow>
          if sizeLimit \<le> get_object_blobsize env tx then Inl TRANSACTION_SIZE_TOO_BIG
          else Inr tx)"

definition makeCompleteEvent ::
  "WalletUserTransactionsCache \<Rightarrow> TransactionId \<Rightarrow> error_code
     \<Rightarrow> WalletUserTransactionsCache \<times> WalletEvent" where
  "makeCompleteEvent transactionCache tid ec =
     (updateTransactionSendingState transactionCache tid ec,
      WalletSendTransactionCompletedEvent tid ec)"

text \<open>\<^verbatim>\<open>events.push_back(makeCompleteEvent(m_transactionsCache, id, ec))\<close>, as every caller writes it.\<close>

definition pushCompleteEvent ::
  "WalletTransactionSender \<Rightarrow> WalletEvent list \<Rightarrow> TransactionId \<Rightarrow> error_code
     \<Rightarrow> WalletTransactionSender \<times> WalletEvent list" where
  "pushCompleteEvent s events tid ec =
     (case makeCompleteEvent (m_transactionsCache s) tid ec of
        (c, ev) \<Rightarrow> (s\<lparr>m_transactionsCache := c\<rparr>, events @ [ev]))"

definition validateDestinationAddress :: "Collaborators \<Rightarrow> string \<Rightarrow> bool" where
  "validateDestinationAddress env a = (parseAccountAddressString env a \<noteq> None)"

text \<open>\<^verbatim>\<open>validateTransfersAddresses\<close> throws \<open>BAD_ADDRESS\<close> at the first transfer that fails.\<close>

fun validateTransfersAddresses :: "Collaborators \<Rightarrow> Transfer list \<Rightarrow> error + unit" where
  "validateTransfersAddresses env [] = Inr ()"
| "validateTransfersAddresses env (tr # rest) =
     (if \<not> validateDestinationAddress env (address tr) then Inl BAD_ADDRESS
      else validateTransfersAddresses env rest)"

subsection \<open>The coin selector\<close>

text \<open>
  The random engine is the sequence of values it will produce;
  \<^verbatim>\<open>uniform_int_distribution(0, hi)\<close> maps the next one into \<open>0..hi\<close>, so every outcome of
  the draw is some sequence. A sequence that has run out produces \<open>0\<close>.
\<close>

type_synonym URNG = "nat list"

definition uniform_int_distribution :: "URNG \<Rightarrow> nat \<Rightarrow> nat \<times> URNG" where
  "uniform_int_distribution randomGenerator hi =
     (case randomGenerator of [] \<Rightarrow> (0, []) | r # rs \<Rightarrow> (r mod (hi + 1), rs))"

text \<open>
  \<^verbatim>\<open>popRandomValue\<close>: on an empty vector the assertion macro returns \<open>T()\<close>, here \<open>0\<close>,
  and touches nothing. Otherwise the drawn element is overwritten by the last one and
  the vector shrinks by one.
\<close>

definition popRandomValue :: "URNG \<Rightarrow> nat list \<Rightarrow> nat \<times> nat list \<times> URNG" where
  "popRandomValue randomGenerator vec =
     (if vec = [] then (0, vec, randomGenerator)
      else
        case uniform_int_distribution randomGenerator (length vec - 1) of
          (idx, randomGenerator') \<Rightarrow>
            (vec ! idx,
             butlast (if idx + 1 \<noteq> length vec then vec[idx := last vec] else vec),
             randomGenerator'))"

text \<open>
  The \<^verbatim>\<open>while\<close> loop of \<^verbatim>\<open>selectTransfersToSend\<close>. Its state is the two pools of
  indices, the generator, the flag \<^verbatim>\<open>selectOneDust\<close>, the running \<^verbatim>\<open>foundMoney\<close> and
  the list of selected coins.
\<close>

function select_loop ::
  "TransactionOutputInformation list \<Rightarrow> u64 \<Rightarrow> nat list \<Rightarrow> nat list \<Rightarrow> URNG \<Rightarrow> bool \<Rightarrow> u64
     \<Rightarrow> TransactionOutputInformation list \<Rightarrow> u64 \<times> TransactionOutputInformation list" where
  "select_loop unlocked neededMoney unusedTransfers unusedDust randomGenerator selectOneDust
      found selected =
     (if found < neededMoney \<and> (unusedTransfers \<noteq> [] \<or> unusedDust \<noteq> []) then
        if selectOneDust then
          case popRandomValue randomGenerator unusedDust of
            (idx, unusedDust', randomGenerator') \<Rightarrow>
              select_loop unlocked neededMoney unusedTransfers unusedDust' randomGenerator' False
                (found + TransactionOutputInformation.amount (unlocked ! idx))
                (selected @ [unlocked ! idx])
        else if unusedTransfers \<noteq> [] then
          case popRandomValue randomGenerator unusedTransfers of
            (idx, unusedTransfers', randomGenerator') \<Rightarrow>
              select_loop unlocked neededMoney unusedTransfers' unusedDust randomGenerator' False
                (found + TransactionOutputInformation.amount (unlocked ! idx))
                (selected @ [unlocked ! idx])
        else
          case popRandomValue randomGenerator unusedDust of
            (idx, unusedDust', randomGenerator') \<Rightarrow>
              select_loop unlocked neededMoney unusedTransfers unusedDust' randomGenerator' False
                (found + TransactionOutputInformation.amount (unlocked ! idx))
                (selected @ [unlocked ! idx])
      else (found, selected))"
  by pat_completeness auto
termination
proof (relation "measure (\<lambda>(unlocked, neededMoney, unusedTransfers, unusedDust, randomGenerator,
          selectOneDust, found, selected).
          2 * (length unusedTransfers + length unusedDust) + (if selectOneDust then 1 else 0))",
       goal_cases)
  case 1
  show ?case by simp
next
  case 2
  then show ?case
    by (auto simp: popRandomValue_def split: if_splits prod.splits)
next
  case (3 unlocked neededMoney unusedTransfers)
  then have "0 < length unusedTransfers" by simp
  with 3 show ?case
    by (auto simp: popRandomValue_def split: if_splits prod.splits)
next
  case (4 unlocked neededMoney unusedTransfers unusedDust)
  then have "0 < length unusedDust" by simp
  with 4 show ?case
    by (auto simp: popRandomValue_def split: if_splits prod.splits)
qed

text \<open>
  \<^verbatim>\<open>selectTransfersToSend\<close>. The first loop sorts the indices of the unused unlocked into
  the two pools, in index order. The coins are appended to the list the caller passes.
\<close>

definition selectTransfersToSend ::
  "Collaborators \<Rightarrow> WalletTransactionSender \<Rightarrow> u64 \<Rightarrow> bool \<Rightarrow> u64
     \<Rightarrow> TransactionOutputInformation list \<Rightarrow> URNG
     \<Rightarrow> u64 \<times> TransactionOutputInformation list" where
  "selectTransfersToSend env s neededMoney addDust dust selected randomGenerator =
     (let unlocked = getOutputs env;
          unused = filter (\<lambda>i. \<not> isUsed (m_transactionsCache s) (unlocked ! i)) [0..<length unlocked];
          unusedTransfers =
            filter (\<lambda>i. dust < TransactionOutputInformation.amount (unlocked ! i)) unused;
          unusedDust =
            filter (\<lambda>i. \<not> dust < TransactionOutputInformation.amount (unlocked ! i)) unused;
          selectOneDust = (addDust \<and> unusedDust \<noteq> [])
      in select_loop unlocked neededMoney unusedTransfers unusedDust randomGenerator selectOneDust
           0 selected)"

subsection \<open>The digit decomposition\<close>

text \<open>
  Modelled from the spec: \<^verbatim>\<open>cryptonote::decompose_amount_into_digits\<close> is declared in
  \<^verbatim>\<open>cryptonote_core/cryptonote_format_utils.h\<close>, which is not among the sources. The spec
  says that an amount is decomposed into denomination-aligned chunks (a digit times a
  power of the base ten) plus at most one remainder that does not exceed the dust
  threshold. The digits are read from the lowest: while the digits read so far sum to at
  most the threshold they are collected in the remainder; every later non-zero digit is
  a chunk of its own. The remainder goes to the dust handler once, the chunks to the
  chunk handler. Nothing is reported for the amount zero.
\<close>

function decompose_loop :: "nat \<Rightarrow> nat \<Rightarrow> nat \<Rightarrow> bool \<Rightarrow> nat \<Rightarrow> handler_call list" where
  "decompose_loop amt order dust is_dust_handled dust_threshold =
     (if amt = 0 then
        (if \<not> is_dust_handled \<and> dust \<noteq> 0 then [Dust (of_nat dust)] else [])
      else
        let chunk = (amt mod 10) * order in
        if dust + chunk \<le> dust_threshold then
          decompose_loop (amt div 10) (order * 10) (dust + chunk) is_dust_handled dust_threshold
        else
          (if \<not> is_dust_handled \<and> dust \<noteq> 0 then [Dust (of_nat dust)] else []) @
          (if chunk \<noteq> 0 then [Chunk (of_nat chunk)] else []) @
          decompose_loop (amt div 10) (order * 10) dust (is_dust_handled \<or> dust \<noteq> 0)
            dust_threshold)"
  by pat_completeness auto
termination
  by (relation "measure (\<lambda>(amt, order, dust, is_dust_handled, dust_threshold). amt)") auto

definition decompose_amount_into_digits :: "u64 \<Rightarrow> u64 \<Rightarrow> handler_call list" where
  "decompose_amount_into_digits amt dust_threshold =
     decompose_loop (unat amt) 1 0 False (unat dust_threshold)"

subsection \<open>digitSplitStrategy and splitDestinations\<close>

text \<open>
  For a transfer both handlers push a destination entry to the transfer's address.
\<close>

definition transfer_handlers ::
  "AccountPublicAddress \<Rightarrow> handler_call list \<Rightarrow> tx_destination_entry list" where
  "transfer_handlers adr calls =
     map (\<lambda>c. \<lparr>tx_destination_entry.amount = call_value c, addr = adr\<rparr>) calls"

text \<open>
  For the change the chunk handler pushes an entry to the change address and the dust
  handler assigns the variable \<^verbatim>\<open>dust\<close>.
\<close>

fun change_handlers ::
  "AccountPublicAddress \<Rightarrow> handler_call list \<Rightarrow> tx_destination_entry list \<times> u64
     \<Rightarrow> tx_destination_entry list \<times> u64" where
  "change_handlers adr [] st = st"
| "change_handlers adr (Chunk chunk # calls) (splitted_dsts, dust) =
     change_handlers adr calls
       (splitted_dsts @ [\<lparr>tx_destination_entry.amount = chunk, addr = adr\<rparr>], dust)"
| "change_handlers adr (Dust a_dust # calls) (splitted_dsts, dust) =
     change_handlers adr calls (splitted_dsts, a_dust)"

text \<open>
  The loop of \<^verbatim>\<open>digitSplitStrategy\<close> over the transfer identifiers. A failing address
  throws \<open>BAD_ADDRESS\<close>. A transfer identifier the cache does not hold is an exception of
  the cache, which the only caller maps to \<open>INTERNAL_WALLET_ERROR\<close>.
\<close>

fun digitSplit_transfers ::
  "Collaborators \<Rightarrow> WalletUserTransactionsCache \<Rightarrow> TransferId list \<Rightarrow> u64
     \<Rightarrow> tx_destination_entry list \<Rightarrow> error + tx_destination_entry list" where
  "digitSplit_transfers env c [] dust_threshold splitted_dsts = Inr splitted_dsts"
| "digitSplit_transfers env c (idx # idxs) dust_threshold splitted_dsts =
     (case getTransfer c idx of
        None \<Rightarrow> Inl INTERNAL_WALLET_ERROR
      | Some de \<Rightarrow>
          (case parseAccountAddressString env (address de) of
             None \<Rightarrow> Inl BAD_ADDRESS
           | Some adr \<Rightarrow>
               digitSplit_transfers env c idxs dust_threshold
                 (splitted_dsts @
                  transfer_handlers adr
                    (decompose_amount env (Transfer.amount de) dust_threshold))))"

definition digitSplitStrategy ::
  "Collaborators \<Rightarrow> WalletUserTransactionsCache \<Rightarrow> TransferId \<Rightarrow> nat \<Rightarrow> tx_destination_entry
     \<Rightarrow> u64 \<Rightarrow> error + tx_destination_entry list \<times> u64" where
  "digitSplitStrategy env c firstId transfersCount change_dst dust_threshold =
     (case digitSplit_transfers env c [firstId..<firstId + transfersCount] dust_threshold [] of
        Inl e \<Rightarrow> Inl e
      | Inr splitted_dsts \<Rightarrow>
          Inr (change_handlers (addr change_dst)
                 (decompose_amount env (tx_destination_entry.amount change_dst) dust_threshold)
                 (splitted_dsts, 0)))"

definition splitDestinations ::
  "Collaborators \<Rightarrow> WalletUserTransactionsCache \<Rightarrow> TransferId \<Rightarrow> nat \<Rightarrow> tx_destination_entry
     \<Rightarrow> TxDustPolicy \<Rightarrow> error + tx_destination_entry list" where
  "splitDestinations env c firstId transfersCount changeDts policy =
     (case digitSplitStrategy env c firstId transfersCount changeDts (dustThreshold policy) of
        Inl e \<Rightarrow> Inl e
      | Inr (splittedDests, dust) \<Rightarrow>
          if dustThreshold policy < dust then Inl INTERNAL_WALLET_ERROR
          else if 0 \<noteq> dust \<and> \<not> addToFee policy
          then Inr (splittedDests @
                    [\<lparr>tx_destination_entry.amount = dust, addr = addrForDust policy\<rparr>])
          else Inr splittedDests)"

subsection \<open>prepareInputs\<close>

text \<open>
  The inner loop over the sorted decoys of one coin: a decoy with the coin's own global
  index is skipped, every other one is pushed, and the loop breaks once the list has
  \<^verbatim>\<open>mixIn\<close> entries. The test comes after the push.
\<close>

fun paste_mixin :: "u64 \<Rightarrow> u64 \<Rightarrow> out_entry list \<Rightarrow> output_entry list \<Rightarrow> output_entry list" where
  "paste_mixin g mix [] src_outputs = src_outputs"
| "paste_mixin g mix (daemon_oe # rest) src_outputs =
     (if g = global_amount_index daemon_oe then paste_mixin g mix rest src_outputs
      else
        let src_outputs' = src_outputs @ [(global_amount_index daemon_oe, out_key daemon_oe)]
        in if unat mix \<le> length src_outputs' then src_outputs'
           else paste_mixin g mix rest src_outputs')"

text \<open>
  One round of the outer loop after the sort, for the coin \<open>td\<close> and its sorted decoys
  \<open>daemon_outs\<close> (empty when no decoy sets were given): \<^verbatim>\<open>find_if\<close> yields the first
  entry whose index is not below the coin's, and the real output is inserted before it.
\<close>

definition prepare_source ::
  "TransactionOutputInformation \<Rightarrow> out_entry list \<Rightarrow> u64 \<Rightarrow> tx_source_entry" where
  "prepare_source td daemon_outs mix =
     (let decoys = paste_mixin (globalOutputIndex td) mix daemon_outs [];
          pos = length (takeWhile (\<lambda>a. \<not> globalOutputIndex td \<le> fst a) decoys);
          real_oe = (globalOutputIndex td, outputKey td)
      in \<lparr>outputs = take pos decoys @ [real_oe] @ drop pos decoys,
          real_output = pos,
          real_out_tx_key = transactionPublicKey td,
          real_output_in_tx_index = outputInTransaction td,
          tx_source_entry.amount = TransactionOutputInformation.amount td\<rparr>)"

text \<open>
  \<^verbatim>\<open>prepareInputs\<close>, with the counter \<open>i\<close>. It returns the sources and the decoy sets,
  which it changes through the reference: when decoy sets are given, the list of
  \<^verbatim>\<open>outs[i]\<close> is sorted in place, by \<^verbatim>\<open>std::list::sort\<close>, a stable sort on the global
  index. \<^verbatim>\<open>outs[i]\<close> is read without a bound check: beyond the end the behaviour of the
  program is undefined, which is the result \<open>None\<close>.
\<close>

fun prepareInputs ::
  "TransactionOutputInformation list \<Rightarrow> outs_for_amount list \<Rightarrow> tx_source_entry list \<Rightarrow> u64
     \<Rightarrow> nat \<Rightarrow> (tx_source_entry list \<times> outs_for_amount list) option" where
  "prepareInputs [] decoy_sets sources mix i = Some (sources, decoy_sets)"
| "prepareInputs (td # tds) decoy_sets sources mix i =
     (if decoy_sets = [] then
        prepareInputs tds decoy_sets (sources @ [prepare_source td [] mix]) mix (Suc i)
      else if length decoy_sets \<le> i then None
      else
        let sorted_outs = sort_key global_amount_index (outs_for_amount.outs (decoy_sets ! i));
            decoy_sets' = decoy_sets[i := (decoy_sets ! i)\<lparr>outs_for_amount.outs := sorted_outs\<rparr>]
        in prepareInputs tds decoy_sets' (sources @ [prepare_source td sorted_outs mix]) mix
             (Suc i))"

subsection \<open>The send orchestrator\<close>

definition notifyBalanceChanged ::
  "Collaborators \<Rightarrow> WalletTransactionSender \<Rightarrow> WalletEvent list \<Rightarrow> WalletEvent list" where
  "notifyBalanceChanged env s events =
     (let unconfirmedOutsAmount = unconfrimedOutsAmount (m_transactionsCache s);
          change = unconfirmedOutsAmount - unconfirmedTransactionsAmount (m_transactionsCache s);
          actualBalance = balanceUnlocked env - unconfirmedOutsAmount;
          pendingBalance = balanceNotUnlocked env + change
      in events @ [WalletActualBalanceUpdatedEvent actualBalance,
                   WalletPendingBalanceUpdatedEvent pendingBalance])"

text \<open>
  The body of the \<^verbatim>\<open>try\<close> block of \<^verbatim>\<open>doSendTransaction\<close> up to the construction of the
  transaction. \<open>Inl\<close> is the code of a caught exception (the second handler turns every
  exception that is not a \<^verbatim>\<open>std::system_error\<close> into \<open>INTERNAL_WALLET_ERROR\<close>), \<open>None\<close> is
  the undefined behaviour of \<^verbatim>\<open>prepareInputs\<close>. \<^verbatim>\<open>AUTO_VAL_INIT\<close> gives the zeroed
  change entry. Nothing is written to the cache before the last throw. On success the
  result is the transaction, the total amount and the decoy sets as \<^verbatim>\<open>prepareInputs\<close>
  left them in the context.
\<close>

definition doSendTransaction_body ::
  "Collaborators \<Rightarrow> WalletTransactionSender \<Rightarrow> SendTransactionContext
     \<Rightarrow> (error + Transaction \<times> u64 \<times> outs_for_amount list) option" where
  "doSendTransaction_body env s context =
     (case getTransaction (m_transactionsCache s) (transactionId context) of
        None \<Rightarrow> Some (Inl INTERNAL_WALLET_ERROR)
      | Some transaction \<Rightarrow>
          (case prepareInputs (selectedTransfers context) (SendTransactionContext.outs context) []
                  (mixIn context) 0 of
             None \<Rightarrow> None
           | Some (sources, sorted_outs) \<Rightarrow>
               let changeDts0 = \<lparr>tx_destination_entry.amount = 0, addr = []\<rparr>;
                   totalAmt = - totalAmount transaction;
                   changeDts = createChangeDestinations (m_account_address s) totalAmt
                                 (foundMoney context) changeDts0
               in (case splitDestinations env (m_transactionsCache s)
                          (firstTransferId transaction) (transferCount transaction) changeDts
                          (dustPolicy context) of
                     Inl e \<Rightarrow> Some (Inl e)
                   | Inr splittedDests \<Rightarrow>
                       (case constructTx env sources splittedDests (extra transaction)
                               (unlockTime transaction) (m_upperTransactionSizeLimit s) of
                          Inl e \<Rightarrow> Some (Inl e)
                        | Inr tx \<Rightarrow> Some (Inr (tx, totalAmt, sorted_outs))))))"

text \<open>\<^verbatim>\<open>fillTransactionHash\<close> writes the hash into the record through the reference.\<close>

definition fillTransactionHash ::
  "Collaborators \<Rightarrow> WalletUserTransactionsCache \<Rightarrow> TransactionId \<Rightarrow> Transaction
     \<Rightarrow> WalletUserTransactionsCache" where
  "fillTransactionHash env c tid tx =
     c\<lparr>transactions :=
         (transactions c)[tid := (transactions c ! tid)\<lparr>hash := get_transaction_hash env tx\<rparr>]\<rparr>"

text \<open>
  \<^verbatim>\<open>doSendTransaction\<close> returns the sender, the event queue and the next request; the
  empty pointer is \<open>None\<close>.
\<close>

definition doSendTransaction ::
  "Collaborators \<Rightarrow> WalletTransactionSender \<Rightarrow> SendTransactionContext \<Rightarrow> WalletEvent list
     \<Rightarrow> (WalletTransactionSender \<times> WalletEvent list \<times> WalletRequest option) option" where
  "doSendTransaction env s context events =
     (if m_isStoping s then
        (case pushCompleteEvent s events (transactionId context) (Some TX_CANCELLED) of
           (s', events') \<Rightarrow> Some (s', events', None))
      else
        (case doSendTransaction_body env s context of
           None \<Rightarrow> None
         | Some (Inl e) \<Rightarrow>
             (case pushCompleteEvent s events (transactionId context) (Some e) of
                (s', events') \<Rightarrow> Some (s', events', None))
         | Some (Inr (tx, totalAmt, sorted_outs)) \<Rightarrow>
             let c1 = fillTransactionHash env (m_transactionsCache s) (transactionId context) tx;
                 c2 = updateTransaction c1 (transactionId context) tx totalAmt
                        (selectedTransfers context);
                 s' = s\<lparr>m_transactionsCache := c2\<rparr>
             in Some (s', notifyBalanceChanged env s' events,
                      Some (WalletRelayTransactionRequest tx
                              (context\<lparr>SendTransactionContext.outs := sorted_outs\<rparr>)))))"

text \<open>
  \<^verbatim>\<open>sendTransactionRandomOutsByAmount\<close>, the callback of the decoy request. The request
  object has stored the response in \<^verbatim>\<open>context->outs\<close> before the call.
\<close>

definition sendTransactionRandomOutsByAmount ::
  "Collaborators \<Rightarrow> WalletTransactionSender \<Rightarrow> SendTransactionContext \<Rightarrow> WalletEvent list
     \<Rightarrow> error_code
     \<Rightarrow> (WalletTransactionSender \<times> WalletEvent list \<times> WalletRequest option) option" where
  "sendTransactionRandomOutsByAmount env s context events ec0 =
     (let ec = (if m_isStoping s then Some TX_CANCELLED else ec0) in
      if ec \<noteq> None then
        (case pushCompleteEvent s events (transactionId context) ec of
           (s', events') \<Rightarrow> Some (s', events', None))
      else if \<exists>out \<in> set (SendTransactionContext.outs context).
                length (outs_for_amount.outs out) < unat (mixIn context) then
        (case pushCompleteEvent s events (transactionId context) (Some MIXIN_COUNT_TOO_BIG) of
           (s', events') \<Rightarrow> Some (s', events', None))
      else doSendTransaction env s context events)"

definition relayTransactionCallback ::
  "WalletTransactionSender \<Rightarrow> SendTransactionContext \<Rightarrow> WalletEvent list \<Rightarrow> error_code
     \<Rightarrow> WalletTransactionSender \<times> WalletEvent list" where
  "relayTransactionCallback s context events ec =
     (if m_isStoping s then (s, events)
      else pushCompleteEvent s events (transactionId context) ec)"

definition makeGetRandomOutsRequest :: "SendTransactionContext \<Rightarrow> WalletRequest" where
  "makeGetRandomOutsRequest context =
     WalletGetRandomOutsByAmountsRequest
       (map TransactionOutputInformation.amount (selectedTransfers context))
       (mixIn context + 1) context"

text \<open>
  \<^verbatim>\<open>makeSendRequest\<close>. The result is \<open>Inl\<close> when an exception leaves the function, and
  then the sender and the events are returned as they were at the throw. The fresh
  context has no decoy sets and no selected coins; its dust policy is the default of a
  header that is not among the sources, so it is a parameter.
\<close>

definition makeSendRequest ::
  "Collaborators \<Rightarrow> WalletTransactionSender \<Rightarrow> WalletEvent list \<Rightarrow> Transfer list \<Rightarrow> u64
     \<Rightarrow> string \<Rightarrow> u64 \<Rightarrow> u64 \<Rightarrow> TxDustPolicy \<Rightarrow> URNG
     \<Rightarrow> (WalletTransactionSender \<times> WalletEvent list
          \<times> (error + TransactionId \<times> WalletRequest option)) option" where
  "makeSendRequest env s events trs fe ext mix unlockTimestamp policy randomGenerator =
     (if trs = [] then Some (s, events, Inl ZERO_DESTINATION)
      else
        case validateTransfersAddresses env trs of
          Inl e \<Rightarrow> Some (s, events, Inl e)
        | Inr _ \<Rightarrow>
            (case countNeededMoney fe trs of
               Inl e \<Rightarrow> Some (s, events, Inl e)
             | Inr neededMoney \<Rightarrow>
                 (case selectTransfersToSend env s neededMoney (0 = mix) (dustThreshold policy) []
                         randomGenerator of
                    (found, selected) \<Rightarrow>
                      if found < neededMoney then Some (s, events, Inl WRONG_AMOUNT)
                      else
                        (case addNewTransaction (m_transactionsCache s) neededMoney fe ext trs
                                unlockTimestamp of
                           (tid, c) \<Rightarrow>
                             let s' = s\<lparr>m_transactionsCache := c\<rparr>;
                                 context = \<lparr>transactionId = tid, outs = [], foundMoney = found,
                                            selectedTransfers = selected, dustPolicy = policy,
                                            mixIn = mix\<rparr>
                             in if mix \<noteq> 0
                                then Some (s', events,
                                           Inr (tid, Some (makeGetRandomOutsRequest context)))
                                else
                                  (case doSendTransaction env s' context events of
                                     None \<Rightarrow> None
                                   | Some (s'', events', req) \<Rightarrow>
                                       Some (s'', events', Inr (tid, req)))))))"

text \<open>\<^verbatim>\<open>stop\<close> raises the flag.\<close>

definition stop :: "WalletTransactionSender \<Rightarrow> WalletTransactionSender" where
  "stop s = s\<lparr>m_isStoping := True\<rparr>"

subsection \<open>The driver of one send operation\<close>

text \<open>
  Modelled from the spec: the driver that executes the requests and invokes their
  callbacks is not among the sources. By the spec's concurrency model it is cooperative:
  one send has at most one outstanding request, the driver resolves it once, with an
  error code (and, for the decoy request, the decoy sets it stores in the context), and a
  callback may hand back the next request. The stop signal may arrive between any two
  of these steps.
\<close>

datatype Signal = StopSignal | Resolved error_code "outs_for_amount list"

record SendOperation =
  sender :: WalletTransactionSender
  queue :: "WalletEvent list"
  outstanding :: "WalletRequest option"

fun deliver :: "Collaborators \<Rightarrow> SendOperation \<Rightarrow> Signal \<Rightarrow> SendOperation option" where
  "deliver env sop StopSignal = Some (sop\<lparr>sender := stop (sender sop)\<rparr>)"
| "deliver env sop (Resolved ec response) =
     (case outstanding sop of
        None \<Rightarrow> Some sop
      | Some (WalletGetRandomOutsByAmountsRequest amounts outsCount context) \<Rightarrow>
          (case sendTransactionRandomOutsByAmount env (sender sop)
                  (context\<lparr>SendTransactionContext.outs := response\<rparr>) (queue sop) ec of
             None \<Rightarrow> None
           | Some (s', events', nextRequest) \<Rightarrow>
               Some \<lparr>sender = s', queue = events', outstanding = nextRequest\<rparr>)
      | Some (WalletRelayTransactionRequest tx context) \<Rightarrow>
          (case relayTransactionCallback (sender sop) context (queue sop) ec of
             (s', events') \<Rightarrow> Some \<lparr>sender = s', queue = events', outstanding = None\<rparr>))"

fun run :: "Collaborators \<Rightarrow> SendOperation \<Rightarrow> Signal list \<Rightarrow> SendOperation option" where
  "run env sop [] = Some sop"
| "run env sop (sig # sigs) =
     (case deliver env sop sig of None \<Rightarrow> None | Some sop' \<Rightarrow> run env sop' sigs)"

text \<open>The completion events of a queue that carry a given transaction identifier.\<close>

fun is_completion :: "TransactionId \<Rightarrow> WalletEvent \<Rightarrow> bool" where
  "is_completion tid (WalletSendTransactionCompletedEvent i ec) = (i = tid)"
| "is_completion tid _ = False"

definition completions :: "TransactionId \<Rightarrow> WalletEvent list \<Rightarrow> nat" where
  "completions tid events = length (filter (is_completion tid) events)"

text \<open>The context a request carries to its callback.\<close>

fun request_context :: "WalletRequest \<Rightarrow> SendTransactionContext" where
  "request_context (WalletGetRandomOutsByAmountsRequest amounts outsCount context) = context"
| "request_context (WalletRelayTransactionRequest tx context) = context"

text \<open>
  The invariant of a send operation for the transaction \<open>tid\<close>, over a queue that held
  \<open>n\<close> completion events of \<open>tid\<close> when the operation began: while a request is
  outstanding it belongs to \<open>tid\<close> and no completion event has been added; once none is
  outstanding at most one has been added.
\<close>

definition at_most_once :: "TransactionId \<Rightarrow> nat \<Rightarrow> SendOperation \<Rightarrow> bool" where
  "at_most_once tid n sop =
     (case outstanding sop of
        None \<Rightarrow> completions tid (queue sop) \<le> n + 1
      | Some request \<Rightarrow>
          transactionId (request_context request) = tid \<and> completions tid (queue sop) = n)"

text \<open>
  The contexts on which the pipeline calls \<^verbatim>\<open>doSendTransaction\<close>, the only caller of
  \<^verbatim>\<open>prepareInputs\<close>: \<^verbatim>\<open>makeSendRequest\<close> calls it directly only when the mixin is zero,
  on the fresh context, which has no decoy sets; the decoy callback calls it only for a
  decoy request, which is made only when the mixin is not zero.
\<close>

definition pipeline_context :: "SendTransactionContext \<Rightarrow> bool" where
  "pipeline_context context =
     (mixIn context = 0 \<longrightarrow> SendTransactionContext.outs context = [])"

text \<open>Every outstanding decoy request carries a context with a mixin that is not zero.\<close>

definition decoy_request_mixed :: "SendOperation \<Rightarrow> bool" where
  "decoy_request_mixed sop =
     (case outstanding sop of
        Some (WalletGetRandomOutsByAmountsRequest amounts outsCount context) \<Rightarrow>
          mixIn context \<noteq> 0
      | _ \<Rightarrow> True)"

subsection \<open>Totals\<close>

text \<open>The exact sums, as natural numbers, of the values handed to the handlers and of the
  amounts of a list of destination entries.\<close>

definition calls_total :: "handler_call list \<Rightarrow> nat" where
  "calls_total calls = sum_list (map (\<lambda>c. unat (call_value c)) calls)"

definition dests_total :: "tx_destination_entry list \<Rightarrow> nat" where
  "dests_total dsts = sum_list (map (\<lambda>d. unat (tx_destination_entry.amount d)) dsts)"

fun is_dust_call :: "handler_call \<Rightarrow> bool" where
  "is_dust_call (Dust d) = True"
| "is_dust_call (Chunk c) = False"

section \<open>Example wallets\<close>

text \<open>Concrete collaborators, senders and policies, on which the theorems below are run.\<close>

definition wallet_500 :: Collaborators where
  "wallet_500 =
     \<lparr>parseAccountAddressString = Some,
      decompose_amount = decompose_amount_into_digits,
      construct_tx = (\<lambda>sources dests ext unlock. Some ''tx''),
      get_object_blobsize = length,
      get_transaction_hash = id,
      getOutputs =
        [\<lparr>TransactionOutputInformation.amount = 200, globalOutputIndex = 7,
          outputInTransaction = 0, transactionPublicKey = ''P'', outputKey = ''K''\<rparr>,
         \<lparr>TransactionOutputInformation.amount = 300, globalOutputIndex = 9,
          outputInTransaction = 1, transactionPublicKey = ''Q'', outputKey = ''L''\<rparr>],
      balanceUnlocked = 500,
      balanceNotUnlocked = 0\<rparr>"

definition idle_sender :: WalletTransactionSender where
  "idle_sender =
     \<lparr>m_isStoping = False,
      m_transactionsCache =
        \<lparr>transactions = [], transfers = [], usedOutputs = [], unconfirmedAmounts = []\<rparr>,
      m_account_address = ''me'',
      m_upperTransactionSizeLimit = 1000\<rparr>"

definition no_dust_policy :: TxDustPolicy where
  "no_dust_policy = \<lparr>dustThreshold = 0, addToFee = True, addrForDust = []\<rparr>"

text \<open>A sender whose cache holds one pending transaction, of one transfer of 990 and fee 10.\<close>

definition pending_sender :: WalletTransactionSender where
  "pending_sender =
     \<lparr>m_isStoping = False,
      m_transactionsCache =
        \<lparr>transactions =
           [\<lparr>firstTransferId = 0, transferCount = 1, totalAmount = - 1000, fee = 10,
             extra = [], unlockTime = 0, hash = [], state = Pending\<rparr>],
         transfers = [\<lparr>address = ''A'', Transfer.amount = 990\<rparr>],
         usedOutputs = [], unconfirmedAmounts = []\<rparr>,
      m_account_address = ''me'',
      m_upperTransactionSizeLimit = 1000\<rparr>"

text \<open>
  The context of that transaction: one selected coin of 2000 with global index 7, a
  mixin of 5 and a decoy set of three entries.
\<close>

definition short_context :: SendTransactionContext where
  "short_context =
     \<lparr>transactionId = 0,
      outs = [\<lparr>outs_for_amount.amount = 2000,
               outs = [\<lparr>global_amount_index = 3, out_key = ''a''\<rparr>,
                       \<lparr>global_amount_index = 5, out_key = ''b''\<rparr>,
                       \<lparr>global_amount_index = 11, out_key = ''c''\<rparr>]\<rparr>],
      foundMoney = 2000,
      selectedTransfers =
        [\<lparr>TransactionOutputInformation.amount = 2000, globalOutputIndex = 7,
          outputInTransaction = 0, transactionPublicKey = ''P'', outputKey = ''K''\<rparr>],
      dustPolicy = no_dust_policy,
      mixIn = 5\<rparr>"

text \<open>Collaborators whose decomposition reports the whole amount as dust.\<close>

definition leaky_wallet :: Collaborators where
  "leaky_wallet = wallet_500\<lparr>decompose_amount := (\<lambda>amt dust_threshold. [Dust amt])\<rparr>"

definition change_1015 :: tx_destination_entry where
  "change_1015 = \<lparr>tx_destination_entry.amount = 1015, addr = ''me''\<rparr>"

definition dust_policy_5 :: TxDustPolicy where
  "dust_policy_5 = \<lparr>dustThreshold = 5, addToFee = True, addrForDust = []\<rparr>"

text \<open>The selected coin of \<open>short_context\<close>.\<close>

definition coin_7 :: TransactionOutputInformation where
  "coin_7 =
     \<lparr>TransactionOutputInformation.amount = 2000, globalOutputIndex = 7,
      outputInTransaction = 0, transactionPublicKey = ''P'', outputKey = ''K''\<rparr>"

text \<open>Collaborators whose container holds a coin of \<open>2^63 - 2\<close> and a coin of \<open>2^64 - 1\<close>.\<close>

definition rich_coin_1 :: TransactionOutputInformation where
  "rich_coin_1 =
     \<lparr>TransactionOutputInformation.amount = 9223372036854775806, globalOutputIndex = 1,
      outputInTransaction = 0, transactionPublicKey = ''P'', outputKey = ''K''\<rparr>"

definition rich_coin_2 :: TransactionOutputInformation where
  "rich_coin_2 =
     \<lparr>TransactionOutputInformation.amount = 18446744073709551615, globalOutputIndex = 2,
      outputInTransaction = 0, transactionPublicKey = ''Q'', outputKey = ''L''\<rparr>"

definition rich_wallet :: Collaborators where
  "rich_wallet = wallet_500\<lparr>getOutputs := [rich_coin_1, rich_coin_2]\<rparr>"

text \<open>Collaborators whose container holds the single coin of 2000.\<close>

definition wallet_2000 :: Collaborators where
  "wallet_2000 = wallet_500\<lparr>getOutputs := [coin_7], balanceUnlocked := 2000\<rparr>"

definition transfer_1000 :: Transfer where
  "transfer_1000 = \<lparr>address = ''A'', Transfer.amount = 1000\<rparr>"

text \<open>
  The send of \<open>transfer_1000\<close> with fee 10 and mixin 5 from \<open>wallet_2000\<close>: the sender
  after \<^verbatim>\<open>makeSendRequest\<close> has accepted it, the context of its decoy request, the
  request, and the operation after a stop signal followed by the decoy response.
\<close>

definition accepted_sender :: WalletTransactionSender where
  "accepted_sender =
     idle_sender\<lparr>m_transactionsCache :=
       snd (addNewTransaction (m_transactionsCache idle_sender) 1010 10 [] [transfer_1000] 0)\<rparr>"

definition decoy_context :: SendTransactionContext where
  "decoy_context =
     \<lparr>transactionId = 0, outs = [], foundMoney = 2000, selectedTransfers = [coin_7],
      dustPolicy = no_dust_policy, mixIn = 5\<rparr>"

definition decoy_request :: WalletRequest where
  "decoy_request = WalletGetRandomOutsByAmountsRequest [2000] 6 decoy_context"

definition cancelled_operation :: SendOperation where
  "cancelled_operation =
     \<lparr>sender = (stop accepted_sender)\<lparr>m_transactionsCache :=
                 updateTransactionSendingState (m_transactionsCache accepted_sender) 0
                   (Some TX_CANCELLED)\<rparr>,
      queue = [WalletSendTransactionCompletedEvent 0 (Some TX_CANCELLED)],
      outstanding = None\<rparr>"

text \<open>
  A context for the pending transaction of \<open>pending_sender\<close> without mixin: a found money
  of 2015 leaves the change 1015 under the dust policy with threshold 5.
\<close>

definition change_context :: SendTransactionContext where
  "change_context =
     \<lparr>transactionId = 0, outs = [], foundMoney = 2015, selectedTransfers = [coin_7],
      dustPolicy = dust_policy_5, mixIn = 0\<rparr>"

text \<open>
  Collaborators whose construction primitive returns the addresses of the destinations it
  is given, one after the other, so that the transaction shows where the outputs go.
\<close>

definition echo_wallet :: Collaborators where
  "echo_wallet = wallet_500\<lparr>construct_tx := (\<lambda>sources dests ext unlock. Some (concat (map addr dests)))\<rparr>"

text \<open>The context of \<open>change_context\<close> with a found money of 1000, which leaves no change.\<close>

definition exact_context :: SendTransactionContext where
  "exact_context = change_context\<lparr>foundMoney := 1000\<rparr>"

section \<open>Machine arithmetic\<close>

lemma signed_take_bit_cases:
  fixes k :: int
  assumes "0 \<le> k" "k < 2 ^ Suc n"
  shows "signed_take_bit n k = (if k < 2 ^ n then k else k - 2 ^ Suc n)"
proof (cases "k < 2 ^ n")
  case True
  then show ?thesis using assms by (simp add: signed_take_bit_int_eq_self)
next
  case False
  have "(k + 2 ^ n) mod 2 ^ Suc n = (k + 2 ^ n - 2 ^ Suc n) mod 2 ^ Suc n"
    using False by (intro mod_pos_geq) simp_all
  also have "\<dots> = k + 2 ^ n - 2 ^ Suc n"
    using assms False by (intro mod_pos_pos_trivial) simp_all
  finally show ?thesis using False
    by (simp add: signed_take_bit_eq_take_bit_shift take_bit_eq_mod)
qed

lemma sint_cases:
  fixes w :: "'a::len word"
  shows "sint w = (if uint w < 2 ^ (LENGTH('a) - 1) then uint w else uint w - 2 ^ LENGTH('a))"
proof -
  obtain n where n: "LENGTH('a) = Suc n" by (cases "LENGTH('a)") simp_all
  have "uint w < 2 ^ Suc n" using uint_lt2p[of w] n by simp
  then show ?thesis
    using signed_take_bit_cases[of "uint w" n] n by (simp add: sint_uint)
qed

lemma sint_u64: "sint (w::u64) = (if uint w < 2^63 then uint w else uint w - 2^64)"
  using sint_cases[of w] by simp

lemma uint_add_u64:
  "uint (a + b :: u64) =
     (if uint a + uint b < 2^64 then uint a + uint b else uint a + uint b - 2^64)"
  using uint_plus_if'[of a b] by simp

lemma uint_u64_bounds: "0 \<le> uint (w::u64)" "uint w < 2^64"
  using uint_lt2p[of w] by simp_all

section \<open>The needed money\<close>

text \<open>
  One round of the loop for a positive amount: the round throws exactly when the exact
  sum reaches \<open>2^63\<close>, and otherwise the new value is the exact sum.
\<close>

lemma countNeededMoney_step:
  fixes n a :: u64
  assumes "0 < sint a"
  shows "sint (n + a) < sint a \<longleftrightarrow> 2^63 \<le> uint n + sint a"
    and "\<not> sint (n + a) < sint a \<Longrightarrow> uint (n + a) = uint n + sint a"
  using assms uint_u64_bounds[of n] uint_u64_bounds[of a]
  by (auto simp: sint_u64 uint_add_u64 split: if_splits)

lemma countNeededMoney_loop_exact:
  assumes "\<forall>t\<in>set ts. 0 < sint (Transfer.amount t)"
  shows "case countNeededMoney_loop n ts of
           Inr r \<Rightarrow> uint r = uint n + (\<Sum>t\<leftarrow>ts. sint (Transfer.amount t))
         | Inl e \<Rightarrow> e = SUM_OVERFLOW"
  using assms
proof (induction ts arbitrary: n)
  case Nil
  then show ?case by simp
next
  case (Cons t ts)
  have pos: "0 < sint (Transfer.amount t)" using Cons.prems by simp
  then have nz: "Transfer.amount t \<noteq> 0" by auto
  show ?case
  proof (cases "sint (n + Transfer.amount t) < sint (Transfer.amount t)")
    case True
    then show ?thesis using pos nz by (simp add: Let_def)
  next
    case False
    have "uint (n + Transfer.amount t) = uint n + sint (Transfer.amount t)"
      using countNeededMoney_step(2)[OF pos False] .
    moreover have "case countNeededMoney_loop (n + Transfer.amount t) ts of
           Inr r \<Rightarrow> uint r = uint (n + Transfer.amount t) + (\<Sum>t\<leftarrow>ts. sint (Transfer.amount t))
         | Inl e \<Rightarrow> e = SUM_OVERFLOW"
      using Cons.IH[of "n + Transfer.amount t"] Cons.prems by simp
    ultimately show ?thesis using False pos nz
      by (simp add: Let_def split: sum.splits)
  qed
qed

lemma countNeededMoney_loop_overflow:
  assumes "\<forall>t\<in>set ts. 0 < sint (Transfer.amount t)"
    and "2^63 \<le> uint n + (\<Sum>t\<leftarrow>ts. sint (Transfer.amount t))"
    and "ts \<noteq> []"
  shows "countNeededMoney_loop n ts = Inl SUM_OVERFLOW"
  using assms
proof (induction ts arbitrary: n)
  case Nil
  then show ?case by simp
next
  case (Cons t ts)
  have pos: "0 < sint (Transfer.amount t)" using Cons.prems by simp
  then have nz: "Transfer.amount t \<noteq> 0" by auto
  show ?case
  proof (cases "sint (n + Transfer.amount t) < sint (Transfer.amount t)")
    case True
    then show ?thesis using pos nz by (simp add: Let_def)
  next
    case False
    have e: "uint (n + Transfer.amount t) = uint n + sint (Transfer.amount t)"
      using countNeededMoney_step(2)[OF pos False] .
    have small: "uint n + sint (Transfer.amount t) < 2^63"
      using countNeededMoney_step(1)[OF pos, of n] False by simp
    have "ts \<noteq> []" using Cons.prems(2) small by auto
    then have "countNeededMoney_loop (n + Transfer.amount t) ts = Inl SUM_OVERFLOW"
      using Cons.IH[of "n + Transfer.amount t"] Cons.prems e by simp
    then show ?thesis using False pos nz by (simp add: Let_def)
  qed
qed

lemma countNeededMoney_loop_accept:
  assumes "\<forall>t\<in>set ts. 0 < sint (Transfer.amount t)"
    and "uint n + (\<Sum>t\<leftarrow>ts. sint (Transfer.amount t)) < 2^63"
  shows "\<exists>r. countNeededMoney_loop n ts = Inr r \<and>
             uint r = uint n + (\<Sum>t\<leftarrow>ts. sint (Transfer.amount t))"
  using assms
proof (induction ts arbitrary: n)
  case Nil
  then show ?case by simp
next
  case (Cons t ts)
  have pos: "0 < sint (Transfer.amount t)" using Cons.prems by simp
  then have nz: "Transfer.amount t \<noteq> 0" by auto
  have "0 \<le> (\<Sum>t\<leftarrow>ts. sint (Transfer.amount t))"
    using Cons.prems(1) by (intro sum_list_nonneg) auto
  then have small: "uint n + sint (Transfer.amount t) < 2^63"
    using Cons.prems(2) by simp
  then have keep: "\<not> sint (n + Transfer.amount t) < sint (Transfer.amount t)"
    using countNeededMoney_step(1)[OF pos, of n] by simp
  have e: "uint (n + Transfer.amount t) = uint n + sint (Transfer.amount t)"
    using countNeededMoney_step(2)[OF pos keep] .
  have "\<exists>r. countNeededMoney_loop (n + Transfer.amount t) ts = Inr r \<and>
             uint r = uint (n + Transfer.amount t) + (\<Sum>t\<leftarrow>ts. sint (Transfer.amount t))"
    using Cons.IH[of "n + Transfer.amount t"] Cons.prems e by simp
  then show ?case using keep pos nz e by (simp add: Let_def add.assoc)
qed

text \<open>
  C7. For transfers with positive amounts, with the sum of the fee and the amounts taken
  over the integers: when the sum is below \<open>2^63\<close>, \<^verbatim>\<open>countNeededMoney\<close> returns it;
  when it is \<open>2^63\<close> or more and there is a transfer, \<^verbatim>\<open>countNeededMoney\<close> throws
  \<open>SUM_OVERFLOW\<close> (the signed comparison rejects the sums from \<open>2^63\<close> to \<open>2^64 - 1\<close>,
  which fit into 64 unsigned bits, as well as those that wrap), and \<^verbatim>\<open>makeSendRequest\<close>
  leaves with that error, whatever the coins and the random draws are, with the sender
  and the event queue untouched. So every value returned is the exact sum, every other
  outcome is \<open>SUM_OVERFLOW\<close>, and every sum that does not fit into 64 unsigned bits is
  rejected.
\<close>

theorem C7_needed_money:
  assumes "\<forall>t\<in>set trs. 0 < sint (Transfer.amount t)"
  shows "(uint fe + (\<Sum>t\<leftarrow>trs. sint (Transfer.amount t)) < 2^63 \<longrightarrow>
            (\<exists>n. countNeededMoney fe trs = Inr n \<and>
                 uint n = uint fe + (\<Sum>t\<leftarrow>trs. sint (Transfer.amount t)))) \<and>
         (trs \<noteq> [] \<and> 2^63 \<le> uint fe + (\<Sum>t\<leftarrow>trs. sint (Transfer.amount t)) \<longrightarrow>
            countNeededMoney fe trs = Inl SUM_OVERFLOW \<and>
            (validateTransfersAddresses env trs = Inr () \<longrightarrow>
               makeSendRequest env s events trs fe ext mix unlockTimestamp policy randomGenerator
                 = Some (s, events, Inl SUM_OVERFLOW))) \<and>
         (case countNeededMoney fe trs of
            Inr n \<Rightarrow> uint n = uint fe + (\<Sum>t\<leftarrow>trs. sint (Transfer.amount t))
          | Inl e \<Rightarrow> e = SUM_OVERFLOW) \<and>
         (2^64 \<le> uint fe + (\<Sum>t\<leftarrow>trs. sint (Transfer.amount t)) \<longrightarrow>
            countNeededMoney fe trs = Inl SUM_OVERFLOW)"
proof -
  let ?sum = "uint fe + (\<Sum>t\<leftarrow>trs. sint (Transfer.amount t))"
  have accept: "\<exists>n. countNeededMoney fe trs = Inr n \<and> uint n = ?sum" if "?sum < 2^63"
    unfolding countNeededMoney_def using countNeededMoney_loop_accept[OF assms that] .
  have reject: "countNeededMoney fe trs = Inl SUM_OVERFLOW" if "trs \<noteq> []" "2^63 \<le> ?sum"
    unfolding countNeededMoney_def
    using countNeededMoney_loop_overflow[OF assms that(2) that(1)] .
  have send: "makeSendRequest env s events trs fe ext mix unlockTimestamp policy randomGenerator
                 = Some (s, events, Inl SUM_OVERFLOW)"
    if "trs \<noteq> []" "2^63 \<le> ?sum" "validateTransfersAddresses env trs = Inr ()"
    using reject[OF that(1,2)] that(1,3) by (simp add: makeSendRequest_def)
  have exact: "case countNeededMoney fe trs of
            Inr n \<Rightarrow> uint n = ?sum
          | Inl e \<Rightarrow> e = SUM_OVERFLOW"
    unfolding countNeededMoney_def using countNeededMoney_loop_exact[OF assms] .
  have wrap: "countNeededMoney fe trs = Inl SUM_OVERFLOW" if big: "2^64 \<le> ?sum"
  proof -
    have "trs \<noteq> []" using big uint_u64_bounds[of fe] by auto
    moreover have "2^63 \<le> ?sum" using big by simp
    ultimately show ?thesis by (rule reject)
  qed
  show ?thesis using accept reject send exact wrap by blast
qed

text \<open>
  A fee of 10 with one transfer of 1000 gives 1010; a fee of \<open>2^64 - 1\<close> with one transfer
  of 1 wraps and is rejected; a fee of \<open>2^63 - 1\<close> with one transfer of 1 gives \<open>2^63\<close>,
  which does not wrap and is rejected too.
\<close>

theorem C7_needed_money_witness:
  "0 < sint (Transfer.amount \<lparr>address = ''A'', Transfer.amount = 1000\<rparr>) \<and>
   countNeededMoney 10 [\<lparr>address = ''A'', Transfer.amount = 1000\<rparr>] = Inr 1010 \<and>
   0 < sint (Transfer.amount \<lparr>address = ''A'', Transfer.amount = 1\<rparr>) \<and>
   countNeededMoney 18446744073709551615 [\<lparr>address = ''A'', Transfer.amount = 1\<rparr>]
     = Inl SUM_OVERFLOW \<and>
   countNeededMoney 9223372036854775807 [\<lparr>address = ''A'', Transfer.amount = 1\<rparr>]
     = Inl SUM_OVERFLOW"
proof -
  have a: "\<forall>t\<in>set [\<lparr>address = ''A'', Transfer.amount = 1000\<rparr>]. 0 < sint (Transfer.amount t)"
    by simp
  have a_sum: "uint (10 :: u64)
             + (\<Sum>t\<leftarrow>[\<lparr>address = ''A'', Transfer.amount = 1000\<rparr>]. sint (Transfer.amount t))
           = 1010"
    by simp
  from C7_needed_money[OF a, of 10] a_sum
  obtain n where n: "countNeededMoney 10 [\<lparr>address = ''A'', Transfer.amount = 1000\<rparr>] = Inr n"
    and "uint n = 1010"
    by auto
  then have "n = 1010" by (intro word_uint_eqI) simp
  with n have accepted:
    "countNeededMoney 10 [\<lparr>address = ''A'', Transfer.amount = 1000\<rparr>] = Inr 1010"
    by simp
  have b: "\<forall>t\<in>set [\<lparr>address = ''A'', Transfer.amount = 1\<rparr>]. 0 < sint (Transfer.amount t)"
    by simp
  have c: "(2::int)^64 \<le> uint (18446744073709551615 :: u64)
             + (\<Sum>t\<leftarrow>[\<lparr>address = ''A'', Transfer.amount = 1\<rparr>]. sint (Transfer.amount t))"
    by simp
  from C7_needed_money[OF b, of 18446744073709551615] c
  have wrapped:
    "countNeededMoney 18446744073709551615 [\<lparr>address = ''A'', Transfer.amount = 1\<rparr>]
          = Inl SUM_OVERFLOW"
    by blast
  have d: "(2::int)^63 \<le> uint (9223372036854775807 :: u64)
             + (\<Sum>t\<leftarrow>[\<lparr>address = ''A'', Transfer.amount = 1\<rparr>]. sint (Transfer.amount t))"
    by simp
  have ne: "[\<lparr>address = ''A'', Transfer.amount = 1\<rparr>] \<noteq> []" by simp
  from C7_needed_money[OF b, of 9223372036854775807] d ne
  have signed:
    "countNeededMoney 9223372036854775807 [\<lparr>address = ''A'', Transfer.amount = 1\<rparr>]
          = Inl SUM_OVERFLOW"
    by blast
  show ?thesis using accepted wrapped signed by simp
qed

section \<open>Insufficient funds\<close>

text \<open>
  C1, as the code has it. When the transfers pass the checks that come first and the
  selector returns less than the needed money, \<^verbatim>\<open>makeSendRequest\<close> leaves with the code
  \<open>WRONG_AMOUNT\<close>, the code that \<^verbatim>\<open>countNeededMoney\<close> throws for a negative amount; no
  code of its own stands for insufficient funds. The throw comes before the cache is
  called: the sender (its cache with the used coins and the transaction records) and the
  event queue are returned as they were.
\<close>

theorem C1_insufficient_funds:
  assumes "trs \<noteq> []"
    and "validateTransfersAddresses env trs = Inr ()"
    and "countNeededMoney fe trs = Inr neededMoney"
    and "fst (selectTransfersToSend env s neededMoney (0 = mix) (dustThreshold policy) []
               randomGenerator) < neededMoney"
  shows "makeSendRequest env s events trs fe ext mix unlockTimestamp policy randomGenerator
           = Some (s, events, Inl WRONG_AMOUNT)"
  using assms by (auto simp: makeSendRequest_def split: prod.splits)

theorem C1_insufficient_funds_witness:
  "fst (selectTransfersToSend wallet_500 idle_sender 1000 True 0 [] []) = 500 \<and>
   makeSendRequest wallet_500 idle_sender [] [\<lparr>address = ''A'', Transfer.amount = 990\<rparr>] 10 []
       0 0 no_dust_policy []
     = Some (idle_sender, [], Inl WRONG_AMOUNT)"
proof -
  have found: "fst (selectTransfersToSend wallet_500 idle_sender 1000 True 0 [] []) = 500"
    by code_simp
  have needed: "countNeededMoney 10 [\<lparr>address = ''A'', Transfer.amount = 990\<rparr>] = Inr 1000"
    by (simp add: countNeededMoney_def)
  have valid: "validateTransfersAddresses wallet_500 [\<lparr>address = ''A'', Transfer.amount = 990\<rparr>]
                 = Inr ()"
    by (simp add: validateDestinationAddress_def wallet_500_def)
  have thr: "dustThreshold no_dust_policy = 0"
    by (simp add: no_dust_policy_def)
  have less: "fst (selectTransfersToSend wallet_500 idle_sender 1000 (0 = (0::u64))
                     (dustThreshold no_dust_policy) [] []) < 1000"
    using found by (simp add: thr)
  show ?thesis
    using found C1_insufficient_funds[OF _ valid needed less, of "[]" "[]" 0] by simp
qed

text \<open>
  C1 as stated asks for an insufficient-funds error. A wallet holding 500 that is asked
  for 990 with fee 10 is short of funds, and the send ends exactly as the send of a
  negative amount does: with \<open>WRONG_AMOUNT\<close>, so the caller cannot tell the two failures
  apart by the code.
\<close>

theorem C1_error_code_counterexample:
  "countNeededMoney 10 [\<lparr>address = ''A'', Transfer.amount = 990\<rparr>] = Inr 1000 \<and>
   fst (selectTransfersToSend wallet_500 idle_sender 1000 True 0 [] []) = 500 \<and>
   makeSendRequest wallet_500 idle_sender [] [\<lparr>address = ''A'', Transfer.amount = 990\<rparr>] 10 []
       0 0 no_dust_policy []
     = Some (idle_sender, [], Inl WRONG_AMOUNT) \<and>
   makeSendRequest wallet_500 idle_sender [] [\<lparr>address = ''A'', Transfer.amount = - 5\<rparr>] 10 []
       0 0 no_dust_policy []
     = Some (idle_sender, [], Inl WRONG_AMOUNT)"
proof -
  have needed: "countNeededMoney 10 [\<lparr>address = ''A'', Transfer.amount = 990\<rparr>] = Inr 1000"
    by (simp add: countNeededMoney_def)
  have found: "fst (selectTransfersToSend wallet_500 idle_sender 1000 True 0 [] []) = 500"
    by code_simp
  have short:
    "makeSendRequest wallet_500 idle_sender [] [\<lparr>address = ''A'', Transfer.amount = 990\<rparr>] 10 []
       0 0 no_dust_policy []
     = Some (idle_sender, [], Inl WRONG_AMOUNT)"
    by code_simp
  have negative:
    "makeSendRequest wallet_500 idle_sender [] [\<lparr>address = ''A'', Transfer.amount = - 5\<rparr>] 10 []
       0 0 no_dust_policy []
     = Some (idle_sender, [], Inl WRONG_AMOUNT)"
    by code_simp
  show ?thesis using needed found short negative by (intro conjI)
qed

section \<open>Completion events and the pending record\<close>

lemma state_updateTransactionSendingState:
  "tid < length (transactions c) \<Longrightarrow>
     map_option state (getTransaction (updateTransactionSendingState c tid ec) tid)
       = Some (Finalized ec)"
  by (simp add: getTransaction_def updateTransactionSendingState_def)

lemma pushCompleteEvent_eq:
  "pushCompleteEvent s events tid ec =
     (s\<lparr>m_transactionsCache := updateTransactionSendingState (m_transactionsCache s) tid ec\<rparr>,
      events @ [WalletSendTransactionCompletedEvent tid ec])"
  by (simp add: pushCompleteEvent_def makeCompleteEvent_def)

text \<open>
  C9. When the decoy response arrives without an error and the sender has not been
  stopped, a decoy set with fewer than \<^verbatim>\<open>mixIn\<close> entries makes the callback queue the
  completion event with \<open>MIXIN_COUNT_TOO_BIG\<close>, finalize the pending record with that code
  and return no further request.
\<close>

theorem C9_mixin_count_too_big:
  assumes "\<not> m_isStoping s"
    and "out \<in> set (SendTransactionContext.outs context)"
    and "length (outs_for_amount.outs out) < unat (mixIn context)"
    and "transactionId context < length (transactions (m_transactionsCache s))"
  shows "\<exists>s'. sendTransactionRandomOutsByAmount env s context events None
           = Some (s', events @ [WalletSendTransactionCompletedEvent (transactionId context)
                                   (Some MIXIN_COUNT_TOO_BIG)], None) \<and>
         map_option state (getTransaction (m_transactionsCache s') (transactionId context))
           = Some (Finalized (Some MIXIN_COUNT_TOO_BIG))"
proof -
  have short: "\<exists>out \<in> set (SendTransactionContext.outs context).
                 length (outs_for_amount.outs out) < unat (mixIn context)"
    using assms(2,3) by blast
  show ?thesis
    using assms(1) short state_updateTransactionSendingState[OF assms(4)]
    by (simp add: sendTransactionRandomOutsByAmount_def pushCompleteEvent_eq)
qed

theorem C9_mixin_count_too_big_witness:
  "sendTransactionRandomOutsByAmount wallet_500 pending_sender short_context [] None
     = Some (pending_sender\<lparr>m_transactionsCache :=
               updateTransactionSendingState (m_transactionsCache pending_sender) 0
                 (Some MIXIN_COUNT_TOO_BIG)\<rparr>,
             [WalletSendTransactionCompletedEvent 0 (Some MIXIN_COUNT_TOO_BIG)], None)"
proof -
  have a: "\<not> m_isStoping pending_sender" by (simp add: pending_sender_def)
  have b: "\<lparr>outs_for_amount.amount = 2000,
               outs = [\<lparr>global_amount_index = 3, out_key = ''a''\<rparr>,
                       \<lparr>global_amount_index = 5, out_key = ''b''\<rparr>,
                       \<lparr>global_amount_index = 11, out_key = ''c''\<rparr>]\<rparr>
             \<in> set (SendTransactionContext.outs short_context)"
    by (simp add: short_context_def)
  have c: "length (outs_for_amount.outs \<lparr>outs_for_amount.amount = 2000,
               outs = [\<lparr>global_amount_index = 3, out_key = ''a''\<rparr>,
                       \<lparr>global_amount_index = 5, out_key = ''b''\<rparr>,
                       \<lparr>global_amount_index = 11, out_key = ''c''\<rparr>]\<rparr>)
             < unat (mixIn short_context)"
    by (simp add: short_context_def)
  have d: "transactionId short_context < length (transactions (m_transactionsCache pending_sender))"
    by (simp add: short_context_def pending_sender_def)
  from C9_mixin_count_too_big[OF a b c d, of wallet_500 "[]"]
  obtain s' where s': "sendTransactionRandomOutsByAmount wallet_500 pending_sender short_context [] None
           = Some (s', [] @ [WalletSendTransactionCompletedEvent (transactionId short_context)
                                   (Some MIXIN_COUNT_TOO_BIG)], None)"
    by blast
  have "sendTransactionRandomOutsByAmount wallet_500 pending_sender short_context [] None
          = Some (pending_sender\<lparr>m_transactionsCache :=
               updateTransactionSendingState (m_transactionsCache pending_sender) 0
                 (Some MIXIN_COUNT_TOO_BIG)\<rparr>,
             [WalletSendTransactionCompletedEvent 0 (Some MIXIN_COUNT_TOO_BIG)], None)"
    using a b c
    by (simp add: sendTransactionRandomOutsByAmount_def pushCompleteEvent_eq short_context_def)
  with s' show ?thesis by simp
qed

text \<open>
  C5, as the code has it. A stop flag seen at the entry of \<^verbatim>\<open>doSendTransaction\<close> or in
  the decoy callback queues the completion event with \<open>TX_CANCELLED\<close>, finalizes the
  pending record with that code and returns no further request. In the relay callback
  a raised stop flag makes the callback return at once: the record and the queue stay
  as they were.
\<close>

theorem C5_cancellation:
  assumes "m_isStoping s"
    and "transactionId context < length (transactions (m_transactionsCache s))"
  shows "(\<exists>s'. doSendTransaction env s context events
            = Some (s', events @ [WalletSendTransactionCompletedEvent (transactionId context)
                                    (Some TX_CANCELLED)], None) \<and>
            map_option state (getTransaction (m_transactionsCache s') (transactionId context))
              = Some (Finalized (Some TX_CANCELLED))) \<and>
         (\<exists>s'. sendTransactionRandomOutsByAmount env s context events ec
            = Some (s', events @ [WalletSendTransactionCompletedEvent (transactionId context)
                                    (Some TX_CANCELLED)], None) \<and>
            map_option state (getTransaction (m_transactionsCache s') (transactionId context))
              = Some (Finalized (Some TX_CANCELLED))) \<and>
         relayTransactionCallback s context events ec = (s, events)"
  using assms(1) state_updateTransactionSendingState[OF assms(2)]
  by (simp add: doSendTransaction_def sendTransactionRandomOutsByAmount_def
      relayTransactionCallback_def pushCompleteEvent_eq Let_def)

theorem C5_cancellation_witness:
  "doSendTransaction wallet_500 (stop pending_sender) short_context []
     = Some ((stop pending_sender)\<lparr>m_transactionsCache :=
               updateTransactionSendingState (m_transactionsCache pending_sender) 0
                 (Some TX_CANCELLED)\<rparr>,
             [WalletSendTransactionCompletedEvent 0 (Some TX_CANCELLED)], None)"
proof -
  have a: "m_isStoping (stop pending_sender)" by (simp add: stop_def)
  have b: "transactionId short_context
             < length (transactions (m_transactionsCache (stop pending_sender)))"
    by (simp add: short_context_def pending_sender_def stop_def)
  from C5_cancellation[OF a b, of wallet_500 "[]"]
  obtain s' where "doSendTransaction wallet_500 (stop pending_sender) short_context []
            = Some (s', [] @ [WalletSendTransactionCompletedEvent (transactionId short_context)
                                    (Some TX_CANCELLED)], None)"
    by blast
  moreover have "doSendTransaction wallet_500 (stop pending_sender) short_context []
     = Some ((stop pending_sender)\<lparr>m_transactionsCache :=
               updateTransactionSendingState (m_transactionsCache pending_sender) 0
                 (Some TX_CANCELLED)\<rparr>,
             [WalletSendTransactionCompletedEvent 0 (Some TX_CANCELLED)], None)"
    using a by (simp add: doSendTransaction_def pushCompleteEvent_eq short_context_def stop_def)
  ultimately show ?thesis by simp
qed

text \<open>
  Cancellation at the relay callback does not finalize: with the stop flag raised, the
  pending record is still pending after the callback and no event has been queued.
\<close>

theorem C5_relay_counterexample:
  "m_isStoping (stop pending_sender) \<and>
   map state (transactions (m_transactionsCache
       (fst (relayTransactionCallback (stop pending_sender) short_context [] None))))
     = [Pending] \<and>
   snd (relayTransactionCallback (stop pending_sender) short_context [] None) = []"
  by (simp add: relayTransactionCallback_def stop_def pending_sender_def)

section \<open>The change destination\<close>

lemma decompose_loop_zero:
  "decompose_loop 0 order 0 False thr = []"
  by (subst decompose_loop.simps) simp

lemma decompose_amount_into_digits_zero:
  "decompose_amount_into_digits 0 thr = []"
  by (simp add: decompose_amount_into_digits_def decompose_loop_zero)

text \<open>
  The record that \<^verbatim>\<open>makeSendRequest\<close> creates for a send holds the negated needed money,
  so the \<^verbatim>\<open>totalAmount\<close> that \<^verbatim>\<open>doSendTransaction\<close> reads back from it is the needed money
  of the send.
\<close>

lemma addNewTransaction_totalAmount:
  assumes "addNewTransaction c neededMoney fe ext trs unlock = (tid, c')"
  shows "\<exists>tr. getTransaction c' tid = Some tr \<and> - totalAmount tr = neededMoney \<and>
              firstTransferId tr = length (transfers c) \<and> transferCount tr = length trs"
  using assms by (auto simp: addNewTransaction_def getTransaction_def)

text \<open>
  C10. In \<^verbatim>\<open>doSendTransaction\<close>, with the needed money read from the record of the
  transaction (\<open>- totalAmount\<close>): when the found money of the context exceeds it, the
  destinations are split with the change entry that has the sender's own account address
  \<^verbatim>\<open>m_account_address\<close> and the amount \<open>foundMoney - neededMoney\<close>, which does not wrap.
  When the two are equal, they are split with the zeroed entry, and with the digit
  decomposition the splitter then returns the destinations of the transfers alone: no
  entry for the change, no entry for dust and no dust error.
\<close>

theorem C10_change_destination:
  assumes "getTransaction (m_transactionsCache s) (transactionId ctx) = Some tr"
    and "prepareInputs (selectedTransfers ctx) (SendTransactionContext.outs ctx) []
           (mixIn ctx) 0 = Some (sources, sorted_sets)"
    and "neededMoney = - totalAmount tr"
  shows "(neededMoney < foundMoney ctx \<longrightarrow>
            doSendTransaction_body env s ctx
              = (case splitDestinations env (m_transactionsCache s)
                        (firstTransferId tr) (transferCount tr)
                        \<lparr>tx_destination_entry.amount = foundMoney ctx - neededMoney,
                          addr = m_account_address s\<rparr>
                        (dustPolicy ctx) of
                   Inl e \<Rightarrow> Some (Inl e)
                 | Inr splittedDests \<Rightarrow>
                     (case constructTx env sources splittedDests (extra tr) (unlockTime tr)
                             (m_upperTransactionSizeLimit s) of
                        Inl e \<Rightarrow> Some (Inl e)
                      | Inr tx \<Rightarrow> Some (Inr (tx, neededMoney, sorted_sets)))) \<and>
            uint (foundMoney ctx - neededMoney) = uint (foundMoney ctx) - uint neededMoney) \<and>
         (foundMoney ctx = neededMoney \<longrightarrow>
            doSendTransaction_body env s ctx
              = (case splitDestinations env (m_transactionsCache s)
                        (firstTransferId tr) (transferCount tr)
                        \<lparr>tx_destination_entry.amount = 0, addr = []\<rparr>
                        (dustPolicy ctx) of
                   Inl e \<Rightarrow> Some (Inl e)
                 | Inr splittedDests \<Rightarrow>
                     (case constructTx env sources splittedDests (extra tr) (unlockTime tr)
                             (m_upperTransactionSizeLimit s) of
                        Inl e \<Rightarrow> Some (Inl e)
                      | Inr tx \<Rightarrow> Some (Inr (tx, neededMoney, sorted_sets)))) \<and>
            (decompose_amount env = decompose_amount_into_digits \<longrightarrow>
               splitDestinations env (m_transactionsCache s)
                   (firstTransferId tr) (transferCount tr)
                   \<lparr>tx_destination_entry.amount = 0, addr = []\<rparr> (dustPolicy ctx)
                 = digitSplit_transfers env (m_transactionsCache s)
                     [firstTransferId tr..<firstTransferId tr + transferCount tr]
                     (dustThreshold (dustPolicy ctx)) []))"
proof -
  have sub: "uint (foundMoney ctx - neededMoney) = uint (foundMoney ctx) - uint neededMoney"
    if "neededMoney < foundMoney ctx"
    using that by (simp add: uint_sub_if' word_less_def)
  have more: "doSendTransaction_body env s ctx
              = (case splitDestinations env (m_transactionsCache s)
                        (firstTransferId tr) (transferCount tr)
                        \<lparr>tx_destination_entry.amount = foundMoney ctx - neededMoney,
                          addr = m_account_address s\<rparr>
                        (dustPolicy ctx) of
                   Inl e \<Rightarrow> Some (Inl e)
                 | Inr splittedDests \<Rightarrow>
                     (case constructTx env sources splittedDests (extra tr) (unlockTime tr)
                             (m_upperTransactionSizeLimit s) of
                        Inl e \<Rightarrow> Some (Inl e)
                      | Inr tx \<Rightarrow> Some (Inr (tx, neededMoney, sorted_sets))))"
    if "neededMoney < foundMoney ctx"
    using that assms(1,2) unfolding assms(3)
    by (simp add: doSendTransaction_body_def createChangeDestinations_def Let_def)
  have same: "doSendTransaction_body env s ctx
              = (case splitDestinations env (m_transactionsCache s)
                        (firstTransferId tr) (transferCount tr)
                        \<lparr>tx_destination_entry.amount = 0, addr = []\<rparr>
                        (dustPolicy ctx) of
                   Inl e \<Rightarrow> Some (Inl e)
                 | Inr splittedDests \<Rightarrow>
                     (case constructTx env sources splittedDests (extra tr) (unlockTime tr)
                             (m_upperTransactionSizeLimit s) of
                        Inl e \<Rightarrow> Some (Inl e)
                      | Inr tx \<Rightarrow> Some (Inr (tx, neededMoney, sorted_sets))))"
    if "foundMoney ctx = neededMoney"
    using that assms(1,2) unfolding assms(3)
    by (simp add: doSendTransaction_body_def createChangeDestinations_def Let_def)
  have none: "splitDestinations env (m_transactionsCache s)
                   (firstTransferId tr) (transferCount tr)
                   \<lparr>tx_destination_entry.amount = 0, addr = []\<rparr> (dustPolicy ctx)
                 = digitSplit_transfers env (m_transactionsCache s)
                     [firstTransferId tr..<firstTransferId tr + transferCount tr]
                     (dustThreshold (dustPolicy ctx)) []"
    if "decompose_amount env = decompose_amount_into_digits"
  proof (cases "digitSplit_transfers env (m_transactionsCache s)
                     [firstTransferId tr..<firstTransferId tr + transferCount tr]
                     (dustThreshold (dustPolicy ctx)) []")
    case (Inl e)
    then show ?thesis by (simp add: splitDestinations_def digitSplitStrategy_def)
  next
    case (Inr splitted_dsts)
    have "\<not> dustThreshold (dustPolicy ctx) < 0" by (simp add: word_less_def)
    then show ?thesis using Inr that
      by (simp add: splitDestinations_def digitSplitStrategy_def
          decompose_amount_into_digits_zero)
  qed
  show ?thesis using sub more same none by blast
qed

text \<open>
  The pending transaction of \<open>pending_sender\<close> needs 1000. With a found money of 2015 the
  transaction built by \<open>echo_wallet\<close> has two outputs to the recipient and two to the
  sender's own address; with a found money of 1000 it has the two outputs to the recipient
  only.
\<close>

theorem C10_change_destination_witness:
  "getTransaction (m_transactionsCache pending_sender) (transactionId change_context)
     = Some (transactions (m_transactionsCache pending_sender) ! 0) \<and>
   prepareInputs (selectedTransfers change_context)
       (SendTransactionContext.outs change_context) [] (mixIn change_context) 0
     = Some ([\<lparr>outputs = [(7, ''K'')], real_output = 0, real_out_tx_key = ''P'',
               real_output_in_tx_index = 0, tx_source_entry.amount = 2000\<rparr>], []) \<and>
   (1000 :: u64) = - totalAmount (transactions (m_transactionsCache pending_sender) ! 0) \<and>
   (1000 :: u64) < foundMoney change_context \<and>
   splitDestinations echo_wallet (m_transactionsCache pending_sender) 0 1
       \<lparr>tx_destination_entry.amount = 1015, addr = ''me''\<rparr> dust_policy_5
     = Inr [\<lparr>tx_destination_entry.amount = 90, addr = ''A''\<rparr>,
            \<lparr>tx_destination_entry.amount = 900, addr = ''A''\<rparr>,
            \<lparr>tx_destination_entry.amount = 10, addr = ''me''\<rparr>,
            \<lparr>tx_destination_entry.amount = 1000, addr = ''me''\<rparr>] \<and>
   doSendTransaction_body echo_wallet pending_sender change_context
     = Some (Inr (''AAmeme'', 1000, [])) \<and>
   foundMoney exact_context = 1000 \<and>
   doSendTransaction_body echo_wallet pending_sender exact_context
     = Some (Inr (''AA'', 1000, []))"
proof -
  let ?tr = "transactions (m_transactionsCache pending_sender) ! 0"
  let ?src = "[\<lparr>outputs = [(7, ''K'')], real_output = 0, real_out_tx_key = ''P'',
               real_output_in_tx_index = 0, tx_source_entry.amount = 2000\<rparr>]"
  have tr: "getTransaction (m_transactionsCache pending_sender) (transactionId change_context)
              = Some ?tr"
    by (simp add: getTransaction_def pending_sender_def change_context_def)
  have src: "prepareInputs (selectedTransfers change_context)
       (SendTransactionContext.outs change_context) [] (mixIn change_context) 0
     = Some (?src, [])"
    by code_simp
  have needed: "(1000 :: u64) = - totalAmount ?tr"
    by (simp add: pending_sender_def)
  have less: "(1000 :: u64) < foundMoney change_context"
    by (simp add: change_context_def)
  have split: "splitDestinations echo_wallet (m_transactionsCache pending_sender) 0 1
       \<lparr>tx_destination_entry.amount = 1015, addr = ''me''\<rparr> dust_policy_5
     = Inr [\<lparr>tx_destination_entry.amount = 90, addr = ''A''\<rparr>,
            \<lparr>tx_destination_entry.amount = 900, addr = ''A''\<rparr>,
            \<lparr>tx_destination_entry.amount = 10, addr = ''me''\<rparr>,
            \<lparr>tx_destination_entry.amount = 1000, addr = ''me''\<rparr>]"
    by code_simp
  have fields: "firstTransferId ?tr = 0" "transferCount ?tr = 1" "extra ?tr = []"
    "unlockTime ?tr = 0" "m_account_address pending_sender = ''me''"
    "dustPolicy change_context = dust_policy_5" "foundMoney change_context - 1000 = 1015"
    by (simp_all add: pending_sender_def change_context_def)
  have built: "constructTx echo_wallet ?src
            [\<lparr>tx_destination_entry.amount = 90, addr = ''A''\<rparr>,
             \<lparr>tx_destination_entry.amount = 900, addr = ''A''\<rparr>,
             \<lparr>tx_destination_entry.amount = 10, addr = ''me''\<rparr>,
             \<lparr>tx_destination_entry.amount = 1000, addr = ''me''\<rparr>] [] 0
            (m_upperTransactionSizeLimit pending_sender) = Inr ''AAmeme''"
    by code_simp
  from C10_change_destination[OF tr src needed, where env = echo_wallet] less
  have "doSendTransaction_body echo_wallet pending_sender change_context
          = (case splitDestinations echo_wallet (m_transactionsCache pending_sender)
                    (firstTransferId ?tr) (transferCount ?tr)
                    \<lparr>tx_destination_entry.amount = foundMoney change_context - 1000,
                      addr = m_account_address pending_sender\<rparr>
                    (dustPolicy change_context) of
               Inl e \<Rightarrow> Some (Inl e)
             | Inr splittedDests \<Rightarrow>
                 (case constructTx echo_wallet ?src splittedDests (extra ?tr) (unlockTime ?tr)
                         (m_upperTransactionSizeLimit pending_sender) of
                    Inl e \<Rightarrow> Some (Inl e)
                  | Inr tx \<Rightarrow> Some (Inr (tx, 1000, []))))"
    by blast
  then have change: "doSendTransaction_body echo_wallet pending_sender change_context
          = Some (Inr (''AAmeme'', 1000, []))"
    unfolding fields split using built by simp
  have found: "foundMoney exact_context = 1000"
    by (simp add: exact_context_def change_context_def)
  have exact: "doSendTransaction_body echo_wallet pending_sender exact_context
          = Some (Inr (''AA'', 1000, []))"
    by code_simp
  show ?thesis using tr src needed less split change found exact by (intro conjI)
qed

section \<open>The splitter\<close>

lemma unat_of_nat_u64: "n < 2^64 \<Longrightarrow> unat (of_nat n :: u64) = n"
  using of_nat_inverse[of n "of_nat n :: u64"] by simp

lemma div_mod_10_mult: "(amt div 10) * (order * 10) + (amt mod 10) * order = amt * (order::nat)"
proof -
  have "(amt div 10) * (order * 10) + (amt mod 10) * order
          = ((amt div 10) * 10 + amt mod 10) * order"
    by (simp only: add_mult_distrib mult.assoc mult.commute[of order 10])
  also have "(amt div 10) * 10 + amt mod 10 = amt"
    by (rule div_mult_mod_eq)
  finally show ?thesis .
qed

lemma decompose_loop_total:
  assumes "amt * order + dust < 2^64"
    and "\<not> handled \<longrightarrow> dust < order"
    and "handled \<longrightarrow> thr < order"
  shows "calls_total (decompose_loop amt order dust handled thr)
           = amt * order + (if handled then 0 else dust)"
  using assms
proof (induction amt order dust handled thr rule: decompose_loop.induct)
  case (1 amt order dust handled thr)
  show ?case
  proof (cases "amt = 0")
    case True
    then show ?thesis using "1.prems"(1)
      by (subst decompose_loop.simps) (simp add: calls_total_def unat_of_nat_u64)
  next
    case False
    define chunk where "chunk = (amt mod 10) * order"
    have split: "(amt div 10) * (order * 10) + chunk = amt * order"
      unfolding chunk_def by (rule div_mod_10_mult)
    have "amt mod 10 \<le> 9" by arith
    then have chunk9: "chunk \<le> 9 * order"
      unfolding chunk_def by (rule mult_le_mono1)
    have bound: "chunk < 2^64" "dust < 2^64"
      using split "1.prems"(1) by linarith+
    show ?thesis
    proof (cases "dust + chunk \<le> thr")
      case True
      have ih: "calls_total (decompose_loop (amt div 10) (order * 10) (dust + chunk) handled thr)
                  = (amt div 10) * (order * 10) + (if handled then 0 else dust + chunk)"
      proof (rule "1.IH"(1)[OF False chunk_def True])
        show "amt div 10 * (order * 10) + (dust + chunk) < 2 ^ 64"
          using split "1.prems"(1) by linarith
        show "\<not> handled \<longrightarrow> dust + chunk < order * 10"
          using "1.prems"(2) chunk9 by auto
        show "handled \<longrightarrow> thr < order * 10"
          using "1.prems"(3) by auto
      qed
      have zero: "chunk = 0" if handled
      proof -
        have "chunk < order" using that "1.prems"(3) True by simp
        then have "amt mod 10 = 0" unfolding chunk_def by (cases "amt mod 10") auto
        then show ?thesis by (simp add: chunk_def)
      qed
      have "decompose_loop amt order dust handled thr
              = decompose_loop (amt div 10) (order * 10) (dust + chunk) handled thr"
        using False True by (subst decompose_loop.simps) (simp add: chunk_def Let_def)
      then show ?thesis using ih split zero by auto
    next
      case nle: False
      define handled' where "handled' = (handled \<or> dust \<noteq> 0)"
      have ih: "calls_total (decompose_loop (amt div 10) (order * 10) dust handled' thr)
                  = (amt div 10) * (order * 10) + (if handled' then 0 else dust)"
        unfolding handled'_def
      proof (rule "1.IH"(2)[OF False chunk_def nle])
        show "amt div 10 * (order * 10) + dust < 2 ^ 64"
          using split "1.prems"(1) by linarith
        show "\<not> (handled \<or> dust \<noteq> 0) \<longrightarrow> dust < order * 10"
          using "1.prems"(2) by auto
        show "handled \<or> dust \<noteq> 0 \<longrightarrow> thr < order * 10"
          using "1.prems"(2,3) chunk9 nle by auto
      qed
      have unf: "decompose_loop amt order dust handled thr
              = (if \<not> handled \<and> dust \<noteq> 0 then [Dust (of_nat dust)] else []) @
                (if chunk \<noteq> 0 then [Chunk (of_nat chunk)] else []) @
                decompose_loop (amt div 10) (order * 10) dust handled' thr"
        using False nle
        by (subst decompose_loop.simps) (simp add: chunk_def Let_def handled'_def)
      show ?thesis
        unfolding unf using ih split bound
        by (auto simp: calls_total_def unat_of_nat_u64 handled'_def)
    qed
  qed
qed


lemma decompose_loop_dust_calls:
  "length (filter is_dust_call (decompose_loop amt order dust handled thr))
     \<le> (if handled then 0 else 1)"
proof (induction amt order dust handled thr rule: decompose_loop.induct)
  case (1 amt order dust handled thr)
  show ?case
  proof (cases "amt = 0")
    case True
    then show ?thesis by (subst decompose_loop.simps) simp
  next
    case False
    define chunk where "chunk = (amt mod 10) * order"
    show ?thesis
    proof (cases "dust + chunk \<le> thr")
      case True
      have "decompose_loop amt order dust handled thr
              = decompose_loop (amt div 10) (order * 10) (dust + chunk) handled thr"
        using False True by (subst decompose_loop.simps) (simp add: chunk_def Let_def)
      then show ?thesis using "1.IH"(1)[OF False chunk_def True] by simp
    next
      case nle: False
      have unf: "decompose_loop amt order dust handled thr
              = (if \<not> handled \<and> dust \<noteq> 0 then [Dust (of_nat dust)] else []) @
                (if chunk \<noteq> 0 then [Chunk (of_nat chunk)] else []) @
                decompose_loop (amt div 10) (order * 10) dust (handled \<or> dust \<noteq> 0) thr"
        using False nle by (subst decompose_loop.simps) (simp add: chunk_def Let_def)
      show ?thesis
        unfolding unf using "1.IH"(2)[OF False chunk_def nle] by (auto split: if_splits)
    qed
  qed
qed

lemma decompose_loop_dust_bound:
  assumes "dust \<le> thr" and "thr < 2^64"
    and "c \<in> set (decompose_loop amt order dust handled thr)" and "is_dust_call c"
  shows "unat (call_value c) \<le> thr"
  using assms
proof (induction amt order dust handled thr rule: decompose_loop.induct)
  case (1 amt order dust handled thr)
  have own: "unat (of_nat dust :: u64) \<le> thr"
    using "1.prems"(1,2) by (simp add: unat_of_nat_u64)
  show ?case
  proof (cases "amt = 0")
    case True
    then show ?thesis using "1.prems"(3,4) own
      by (subst (asm) decompose_loop.simps) (auto split: if_splits)
  next
    case False
    define chunk where "chunk = (amt mod 10) * order"
    show ?thesis
    proof (cases "dust + chunk \<le> thr")
      case True
      have "decompose_loop amt order dust handled thr
              = decompose_loop (amt div 10) (order * 10) (dust + chunk) handled thr"
        using False True by (subst decompose_loop.simps) (simp add: chunk_def Let_def)
      then show ?thesis
        using "1.IH"(1)[OF False chunk_def True True "1.prems"(2) _ "1.prems"(4)] "1.prems"(3)
        by simp
    next
      case nle: False
      have unf: "decompose_loop amt order dust handled thr
              = (if \<not> handled \<and> dust \<noteq> 0 then [Dust (of_nat dust)] else []) @
                (if chunk \<noteq> 0 then [Chunk (of_nat chunk)] else []) @
                decompose_loop (amt div 10) (order * 10) dust (handled \<or> dust \<noteq> 0) thr"
        using False nle by (subst decompose_loop.simps) (simp add: chunk_def Let_def)
      show ?thesis
        using "1.prems"(3,4) own
          "1.IH"(2)[OF False chunk_def nle "1.prems"(1,2) _ "1.prems"(4)]
        unfolding unf by (auto split: if_splits)
    qed
  qed
qed

lemma decompose_amount_into_digits_total:
  "calls_total (decompose_amount_into_digits a thr) = unat a"
proof -
  have "unat a < 2^64" using unsigned_less[of a] by simp
  then show ?thesis
    unfolding decompose_amount_into_digits_def
    by (subst decompose_loop_total) simp_all
qed

lemma decompose_amount_into_digits_one_dust:
  "length (filter is_dust_call (decompose_amount_into_digits a thr)) \<le> 1"
  unfolding decompose_amount_into_digits_def
  using decompose_loop_dust_calls[of "unat a" 1 0 False "unat thr"] by simp

lemma decompose_amount_into_digits_dust_bound:
  assumes "c \<in> set (decompose_amount_into_digits a thr)" and "is_dust_call c"
  shows "call_value c \<le> thr"
proof -
  have "unat thr < 2^64" using unsigned_less[of thr] by simp
  then have "unat (call_value c) \<le> unat thr"
    using decompose_loop_dust_bound[of 0 "unat thr" c "unat a" 1 False] assms
    unfolding decompose_amount_into_digits_def by simp
  then show ?thesis by (simp add: word_le_nat_alt)
qed

lemma dests_total_append [simp]:
  "dests_total (xs @ ys) = dests_total xs + dests_total ys"
  by (simp add: dests_total_def)

lemma dests_total_transfer_handlers:
  "dests_total (transfer_handlers adr calls) = calls_total calls"
  by (simp add: dests_total_def transfer_handlers_def calls_total_def comp_def)

text \<open>
  The change handlers keep every value as long as the dust handler is called at most
  once: the variable \<^verbatim>\<open>dust\<close> is assigned, not added to.
\<close>

lemma change_handlers_total:
  assumes "length (filter is_dust_call calls) \<le> 1"
    and "dust0 \<noteq> 0 \<longrightarrow> filter is_dust_call calls = []"
  shows "dests_total (fst (change_handlers adr calls (dsts, dust0)))
           + unat (snd (change_handlers adr calls (dsts, dust0)))
         = dests_total dsts + unat dust0 + calls_total calls"
  using assms
proof (induction calls arbitrary: dsts dust0)
  case Nil
  then show ?case by (simp add: calls_total_def)
next
  case (Cons call calls)
  show ?case
  proof (cases call)
    case (Chunk chunk)
    then show ?thesis
      using Cons.IH[of dust0 "dsts @ [\<lparr>tx_destination_entry.amount = chunk, addr = adr\<rparr>]"]
        Cons.prems
      by (simp add: calls_total_def dests_total_def)
  next
    case (Dust a_dust)
    have rest: "filter is_dust_call calls = []" using Cons.prems(1) Dust by simp
    have zero: "dust0 = 0" using Cons.prems(2) Dust by auto
    show ?thesis
      using Cons.IH[of a_dust dsts] rest zero Dust
      by (simp add: calls_total_def)
  qed
qed

lemma change_handlers_dust:
  "snd (change_handlers adr calls (dsts, dust0)) = dust0 \<or>
   (\<exists>c \<in> set calls. is_dust_call c \<and> snd (change_handlers adr calls (dsts, dust0)) = call_value c)"
proof (induction calls arbitrary: dsts dust0)
  case Nil
  then show ?case by simp
next
  case (Cons call calls)
  show ?case
  proof (cases call)
    case (Chunk chunk)
    then show ?thesis
      using Cons.IH[of "dsts @ [\<lparr>tx_destination_entry.amount = chunk, addr = adr\<rparr>]" dust0]
      by auto
  next
    case (Dust a_dust)
    then show ?thesis using Cons.IH[of dsts a_dust] by auto
  qed
qed

lemma digitSplit_transfers_total:
  assumes "decompose_amount env = decompose_amount_into_digits"
    and "digitSplit_transfers env c idxs thr acc = Inr dsts"
  shows "dests_total dsts
           = dests_total acc + (\<Sum>idx\<leftarrow>idxs. unat (Transfer.amount (transfers c ! idx)))"
  using assms(2)
proof (induction idxs arbitrary: acc)
  case Nil
  then show ?case by simp
next
  case (Cons idx idxs)
  from Cons.prems obtain de adr where
    de: "getTransfer c idx = Some de" and
    adr: "parseAccountAddressString env (address de) = Some adr" and
    rest: "digitSplit_transfers env c idxs thr
             (acc @ transfer_handlers adr (decompose_amount env (Transfer.amount de) thr)) = Inr dsts"
    by (auto split: option.splits)
  have "de = transfers c ! idx" using de by (auto simp: getTransfer_def split: if_splits)
  then show ?case
    using Cons.IH[OF rest] assms(1)
    by (simp add: dests_total_transfer_handlers decompose_amount_into_digits_total)
qed

text \<open>
  C2. With the digit decomposition, every decomposed amount is conserved exactly, as
  natural numbers: the entries pushed for a transfer amount sum to the amount; the
  entries pushed for the change amount plus the dust left over sum to the change amount;
  and for a whole run of \<^verbatim>\<open>digitSplitStrategy\<close> the destinations and the dust sum to the
  transfer amounts plus the change amount.
\<close>

theorem C2_split_conservation:
  "dests_total (transfer_handlers adr (decompose_amount_into_digits a thr)) = unat a \<and>
   dests_total (fst (change_handlers adr (decompose_amount_into_digits a thr) ([], 0)))
     + unat (snd (change_handlers adr (decompose_amount_into_digits a thr) ([], 0))) = unat a \<and>
   (decompose_amount env = decompose_amount_into_digits \<longrightarrow>
    digitSplitStrategy env c firstId transfersCount change_dst thr = Inr (dsts, dust) \<longrightarrow>
      dests_total dsts + unat dust
        = (\<Sum>idx\<leftarrow>[firstId..<firstId + transfersCount]. unat (Transfer.amount (transfers c ! idx)))
          + unat (tx_destination_entry.amount change_dst))"
proof -
  have one: "dests_total (transfer_handlers adr (decompose_amount_into_digits a thr)) = unat a"
    by (simp add: dests_total_transfer_handlers decompose_amount_into_digits_total)
  have change: "dests_total (fst (change_handlers adr' (decompose_amount_into_digits a' thr) (ds, 0)))
     + unat (snd (change_handlers adr' (decompose_amount_into_digits a' thr) (ds, 0)))
     = dests_total ds + unat a'" for adr' a' ds
    using change_handlers_total[OF decompose_amount_into_digits_one_dust, of 0 a' thr adr' ds]
    by (simp add: decompose_amount_into_digits_total)
  have whole: "dests_total dsts + unat dust
        = (\<Sum>idx\<leftarrow>[firstId..<firstId + transfersCount]. unat (Transfer.amount (transfers c ! idx)))
          + unat (tx_destination_entry.amount change_dst)"
    if env: "decompose_amount env = decompose_amount_into_digits"
      and run: "digitSplitStrategy env c firstId transfersCount change_dst thr = Inr (dsts, dust)"
  proof -
    from run obtain ds where
      ds: "digitSplit_transfers env c [firstId..<firstId + transfersCount] thr [] = Inr ds" and
      res: "change_handlers (addr change_dst)
              (decompose_amount env (tx_destination_entry.amount change_dst) thr) (ds, 0)
            = (dsts, dust)"
      by (auto simp: digitSplitStrategy_def split: sum.splits)
    have "dests_total ds
            = (\<Sum>idx\<leftarrow>[firstId..<firstId + transfersCount]. unat (Transfer.amount (transfers c ! idx)))"
      using digitSplit_transfers_total[OF env ds] by (simp add: dests_total_def)
    moreover have "dests_total dsts + unat dust
                     = dests_total ds + unat (tx_destination_entry.amount change_dst)"
      using change[of "addr change_dst" "tx_destination_entry.amount change_dst" ds] res env
      by simp
    ultimately show ?thesis by simp
  qed
  show ?thesis using one change[of adr a "[]"] whole by (simp add: dests_total_def)
qed

theorem C2_split_conservation_witness:
  "digitSplitStrategy wallet_500 (m_transactionsCache pending_sender) 0 1 change_1015 10
     = Inr ([\<lparr>tx_destination_entry.amount = 90, addr = ''A''\<rparr>,
             \<lparr>tx_destination_entry.amount = 900, addr = ''A''\<rparr>,
             \<lparr>tx_destination_entry.amount = 10, addr = ''me''\<rparr>,
             \<lparr>tx_destination_entry.amount = 1000, addr = ''me''\<rparr>], 5) \<and>
   dests_total [\<lparr>tx_destination_entry.amount = 90, addr = ''A''\<rparr>,
             \<lparr>tx_destination_entry.amount = 900, addr = ''A''\<rparr>,
             \<lparr>tx_destination_entry.amount = 10, addr = ''me''\<rparr>,
             \<lparr>tx_destination_entry.amount = 1000, addr = ''me''\<rparr>] + unat (5 :: u64)
     = 990 + 1015"
proof -
  have env: "decompose_amount wallet_500 = decompose_amount_into_digits"
    by (simp add: wallet_500_def)
  have run: "digitSplitStrategy wallet_500 (m_transactionsCache pending_sender) 0 1 change_1015 10
     = Inr ([\<lparr>tx_destination_entry.amount = 90, addr = ''A''\<rparr>,
             \<lparr>tx_destination_entry.amount = 900, addr = ''A''\<rparr>,
             \<lparr>tx_destination_entry.amount = 10, addr = ''me''\<rparr>,
             \<lparr>tx_destination_entry.amount = 1000, addr = ''me''\<rparr>], 5)"
    by code_simp
  have "dests_total [\<lparr>tx_destination_entry.amount = 90, addr = ''A''\<rparr>,
             \<lparr>tx_destination_entry.amount = 900, addr = ''A''\<rparr>,
             \<lparr>tx_destination_entry.amount = 10, addr = ''me''\<rparr>,
             \<lparr>tx_destination_entry.amount = 1000, addr = ''me''\<rparr>] + unat (5 :: u64)
     = (\<Sum>idx\<leftarrow>[0..<0 + 1]. unat (Transfer.amount
            (transfers (m_transactionsCache pending_sender) ! idx)))
       + unat (tx_destination_entry.amount change_1015)"
    using C2_split_conservation[where env = wallet_500
          and c = "m_transactionsCache pending_sender" and firstId = 0 and transfersCount = 1
          and change_dst = change_1015 and thr = 10] env run
    by blast
  then show ?thesis using run by (simp add: pending_sender_def change_1015_def)
qed

lemma doSendTransaction_failed:
  assumes "\<not> m_isStoping s" and "doSendTransaction_body env s context = Some (Inl e)"
  shows "doSendTransaction env s context events
           = Some (s\<lparr>m_transactionsCache :=
                       updateTransactionSendingState (m_transactionsCache s)
                         (transactionId context) (Some e)\<rparr>,
                   events @ [WalletSendTransactionCompletedEvent (transactionId context) (Some e)],
                   None)"
  using assms by (simp add: doSendTransaction_def pushCompleteEvent_eq)

text \<open>
  C3, as the code has it. The guard of \<^verbatim>\<open>splitDestinations\<close> throws only when the dust
  is above the threshold, so the bound it enforces is \<open>dust \<le> dustThreshold\<close>, and a
  dust equal to the threshold passes. With the digit decomposition the dust left over by
  \<^verbatim>\<open>digitSplitStrategy\<close> never exceeds the threshold. Whatever the decomposition is, a dust
  above the threshold makes \<^verbatim>\<open>splitDestinations\<close> throw \<open>INTERNAL_WALLET_ERROR\<close>, and
  \<^verbatim>\<open>doSendTransaction\<close> then ends the send with the completion event of that code and no
  relay request.
\<close>

theorem C3_dust_bound:
  assumes "digitSplitStrategy env c firstId transfersCount changeDts (dustThreshold policy)
             = Inr (dsts, dust)"
  shows "(decompose_amount env = decompose_amount_into_digits \<longrightarrow> dust \<le> dustThreshold policy) \<and>
         (dust \<le> dustThreshold policy \<longrightarrow>
            splitDestinations env c firstId transfersCount changeDts policy
              = Inr (if 0 \<noteq> dust \<and> \<not> addToFee policy
                     then dsts @ [\<lparr>tx_destination_entry.amount = dust,
                                   addr = addrForDust policy\<rparr>]
                     else dsts)) \<and>
         (dustThreshold policy < dust \<longrightarrow>
            splitDestinations env c firstId transfersCount changeDts policy
              = Inl INTERNAL_WALLET_ERROR \<and>
            (\<not> m_isStoping s \<and> c = m_transactionsCache s \<and> policy = dustPolicy ctx \<and>
             getTransaction c (transactionId ctx) = Some tr \<and>
             firstId = firstTransferId tr \<and> transfersCount = transferCount tr \<and>
             prepareInputs (selectedTransfers ctx) (SendTransactionContext.outs ctx) []
               (mixIn ctx) 0 \<noteq> None \<and>
             changeDts = createChangeDestinations (m_account_address s) (- totalAmount tr)
                           (foundMoney ctx) \<lparr>tx_destination_entry.amount = 0, addr = []\<rparr>
             \<longrightarrow> doSendTransaction env s ctx events
                   = Some (s\<lparr>m_transactionsCache :=
                               updateTransactionSendingState c (transactionId ctx)
                                 (Some INTERNAL_WALLET_ERROR)\<rparr>,
                           events @ [WalletSendTransactionCompletedEvent (transactionId ctx)
                                       (Some INTERNAL_WALLET_ERROR)],
                           None)))"
proof -
  have model: "dust \<le> dustThreshold policy"
    if env: "decompose_amount env = decompose_amount_into_digits"
  proof -
    from assms obtain ds where
      res: "change_handlers (addr changeDts)
              (decompose_amount_into_digits (tx_destination_entry.amount changeDts)
                 (dustThreshold policy)) (ds, 0) = (dsts, dust)"
      using env by (auto simp: digitSplitStrategy_def split: sum.splits)
    from change_handlers_dust[of "addr changeDts"
        "decompose_amount_into_digits (tx_destination_entry.amount changeDts) (dustThreshold policy)"
        ds 0]
    show ?thesis
      using res decompose_amount_into_digits_dust_bound by auto
  qed
  have ok: "splitDestinations env c firstId transfersCount changeDts policy
              = Inr (if 0 \<noteq> dust \<and> \<not> addToFee policy
                     then dsts @ [\<lparr>tx_destination_entry.amount = dust,
                                   addr = addrForDust policy\<rparr>]
                     else dsts)"
    if "dust \<le> dustThreshold policy"
    using that assms by (simp add: splitDestinations_def not_less)
  have thrown: "splitDestinations env c firstId transfersCount changeDts policy
              = Inl INTERNAL_WALLET_ERROR"
    if "dustThreshold policy < dust"
    using that assms by (simp add: splitDestinations_def)
  have abort: "doSendTransaction env s ctx events
                   = Some (s\<lparr>m_transactionsCache :=
                               updateTransactionSendingState c (transactionId ctx)
                                 (Some INTERNAL_WALLET_ERROR)\<rparr>,
                           events @ [WalletSendTransactionCompletedEvent (transactionId ctx)
                                       (Some INTERNAL_WALLET_ERROR)],
                           None)"
    if big: "dustThreshold policy < dust" and run: "\<not> m_isStoping s"
      and c: "c = m_transactionsCache s" and p: "policy = dustPolicy ctx"
      and tr: "getTransaction c (transactionId ctx) = Some tr"
      and ids: "firstId = firstTransferId tr" "transfersCount = transferCount tr"
      and src: "prepareInputs (selectedTransfers ctx) (SendTransactionContext.outs ctx) []
               (mixIn ctx) 0 \<noteq> None"
      and ch: "changeDts = createChangeDestinations (m_account_address s) (- totalAmount tr)
                           (foundMoney ctx) \<lparr>tx_destination_entry.amount = 0, addr = []\<rparr>"
  proof -
    have "doSendTransaction_body env s ctx = Some (Inl INTERNAL_WALLET_ERROR)"
      using thrown[OF big] c p tr ids src ch
      by (auto simp: doSendTransaction_body_def Let_def split: option.splits)
    from doSendTransaction_failed[OF run this] c show ?thesis by simp
  qed
  show ?thesis using model ok thrown abort by blast
qed

theorem C3_dust_bound_witness:
  "digitSplitStrategy leaky_wallet (m_transactionsCache pending_sender) 0 1 change_1015
       (dustThreshold dust_policy_5)
     = Inr ([\<lparr>tx_destination_entry.amount = 990, addr = ''A''\<rparr>], 1015) \<and>
   splitDestinations leaky_wallet (m_transactionsCache pending_sender) 0 1 change_1015
       dust_policy_5 = Inl INTERNAL_WALLET_ERROR \<and>
   doSendTransaction leaky_wallet pending_sender change_context []
     = Some (pending_sender\<lparr>m_transactionsCache :=
               updateTransactionSendingState (m_transactionsCache pending_sender) 0
                 (Some INTERNAL_WALLET_ERROR)\<rparr>,
             [WalletSendTransactionCompletedEvent 0 (Some INTERNAL_WALLET_ERROR)], None)"
proof -
  have run: "digitSplitStrategy leaky_wallet (m_transactionsCache pending_sender) 0 1 change_1015
       (dustThreshold dust_policy_5)
     = Inr ([\<lparr>tx_destination_entry.amount = 990, addr = ''A''\<rparr>], 1015)"
    by (simp add: digitSplitStrategy_def leaky_wallet_def wallet_500_def change_1015_def
        pending_sender_def getTransfer_def transfer_handlers_def)
  have big: "dustThreshold dust_policy_5 < 1015"
    by (simp add: dust_policy_5_def)
  have tr: "getTransaction (m_transactionsCache pending_sender) (transactionId change_context)
              = Some \<lparr>firstTransferId = 0, transferCount = 1, totalAmount = - 1000, fee = 10,
                      extra = [], unlockTime = 0, hash = [], state = Pending\<rparr>"
    by (simp add: getTransaction_def pending_sender_def change_context_def)
  have src: "prepareInputs (selectedTransfers change_context)
               (SendTransactionContext.outs change_context) [] (mixIn change_context) 0 \<noteq> None"
    by (simp add: change_context_def)
  have ch: "change_1015 = createChangeDestinations (m_account_address pending_sender)
               (- totalAmount \<lparr>firstTransferId = 0, transferCount = 1, totalAmount = - 1000,
                                fee = 10, extra = [], unlockTime = 0, hash = [],
                                state = Pending\<rparr>)
               (foundMoney change_context) \<lparr>tx_destination_entry.amount = 0, addr = []\<rparr>"
    by (simp add: createChangeDestinations_def change_1015_def pending_sender_def
        change_context_def)
  have run': "\<not> m_isStoping pending_sender"
    and pol: "dust_policy_5 = dustPolicy change_context"
    by (simp_all add: pending_sender_def change_context_def)
  note inst = C3_dust_bound[OF run, where s = pending_sender and ctx = change_context
      and events = "[]"
      and tr = "\<lparr>firstTransferId = 0, transferCount = 1, totalAmount = - 1000, fee = 10,
                  extra = [], unlockTime = 0, hash = [], state = Pending\<rparr>"]
  have thrown: "splitDestinations leaky_wallet (m_transactionsCache pending_sender) 0 1
                  change_1015 dust_policy_5 = Inl INTERNAL_WALLET_ERROR"
    using inst big by blast
  have aborted: "doSendTransaction leaky_wallet pending_sender change_context []
     = Some (pending_sender\<lparr>m_transactionsCache :=
               updateTransactionSendingState (m_transactionsCache pending_sender)
                 (transactionId change_context) (Some INTERNAL_WALLET_ERROR)\<rparr>,
             [] @ [WalletSendTransactionCompletedEvent (transactionId change_context)
                     (Some INTERNAL_WALLET_ERROR)], None)"
    using inst big run' pol tr src ch by simp
  have tid: "transactionId change_context = 0" by (simp add: change_context_def)
  show ?thesis using run thrown aborted unfolding tid by simp
qed

text \<open>
  The dust can equal the threshold: a change of 1015 under the threshold 5 leaves the
  dust 5, which is not below the threshold, and \<^verbatim>\<open>splitDestinations\<close> accepts it.
\<close>

theorem C3_strict_bound_counterexample:
  "digitSplitStrategy wallet_500 (m_transactionsCache pending_sender) 0 1 change_1015
       (dustThreshold dust_policy_5)
     = Inr ([\<lparr>tx_destination_entry.amount = 90, addr = ''A''\<rparr>,
             \<lparr>tx_destination_entry.amount = 900, addr = ''A''\<rparr>,
             \<lparr>tx_destination_entry.amount = 10, addr = ''me''\<rparr>,
             \<lparr>tx_destination_entry.amount = 1000, addr = ''me''\<rparr>], 5) \<and>
   \<not> (5 :: u64) < dustThreshold dust_policy_5 \<and>
   splitDestinations wallet_500 (m_transactionsCache pending_sender) 0 1 change_1015
       dust_policy_5
     = Inr [\<lparr>tx_destination_entry.amount = 90, addr = ''A''\<rparr>,
            \<lparr>tx_destination_entry.amount = 900, addr = ''A''\<rparr>,
            \<lparr>tx_destination_entry.amount = 10, addr = ''me''\<rparr>,
            \<lparr>tx_destination_entry.amount = 1000, addr = ''me''\<rparr>]"
proof -
  have run: "digitSplitStrategy wallet_500 (m_transactionsCache pending_sender) 0 1 change_1015
       (dustThreshold dust_policy_5)
     = Inr ([\<lparr>tx_destination_entry.amount = 90, addr = ''A''\<rparr>,
             \<lparr>tx_destination_entry.amount = 900, addr = ''A''\<rparr>,
             \<lparr>tx_destination_entry.amount = 10, addr = ''me''\<rparr>,
             \<lparr>tx_destination_entry.amount = 1000, addr = ''me''\<rparr>], 5)"
    by code_simp
  then show ?thesis
    by (simp add: splitDestinations_def dust_policy_5_def)
qed

section \<open>The input preparer\<close>

text \<open>The decoys pasted are a prefix of the candidates that differ from the real index.\<close>

lemma paste_mixin_prefix:
  "\<exists>n. paste_mixin g mix xs acc
         = acc @ take n (map (\<lambda>e. (global_amount_index e, out_key e))
                           (filter (\<lambda>e. g \<noteq> global_amount_index e) xs))"
proof (induction xs arbitrary: acc)
  case Nil
  then show ?case by simp
next
  case (Cons e xs)
  show ?case
  proof (cases "g = global_amount_index e")
    case True
    then show ?thesis using Cons.IH[of acc] by simp
  next
    case False
    let ?acc' = "acc @ [(global_amount_index e, out_key e)]"
    show ?thesis
    proof (cases "unat mix \<le> length ?acc'")
      case True
      have "paste_mixin g mix (e # xs) acc = ?acc'"
        using False True by (simp add: Let_def)
      also have "?acc' = acc @ take 1 (map (\<lambda>e. (global_amount_index e, out_key e))
                           (filter (\<lambda>e. g \<noteq> global_amount_index e) (e # xs)))"
        using False by simp
      finally show ?thesis by blast
    next
      case nle: False
      from Cons.IH[of ?acc'] obtain n where
        n: "paste_mixin g mix xs ?acc'
              = ?acc' @ take n (map (\<lambda>e. (global_amount_index e, out_key e))
                           (filter (\<lambda>e. g \<noteq> global_amount_index e) xs))"
        by blast
      have "paste_mixin g mix (e # xs) acc = paste_mixin g mix xs ?acc'"
        using False nle by (simp add: Let_def)
      also have "\<dots> = acc @ take (Suc n) (map (\<lambda>e. (global_amount_index e, out_key e))
                           (filter (\<lambda>e. g \<noteq> global_amount_index e) (e # xs)))"
        using n False by simp
      finally show ?thesis by blast
    qed
  qed
qed

lemma length_paste_mixin:
  "length (paste_mixin g mix xs acc) \<le> max (unat mix) (Suc (length acc))"
proof (induction xs arbitrary: acc)
  case Nil
  then show ?case by simp
next
  case (Cons e xs)
  show ?case
  proof (cases "g = global_amount_index e")
    case True
    then show ?thesis using Cons.IH[of acc] by simp
  next
    case False
    show ?thesis
      using False Cons.IH[of "acc @ [(global_amount_index e, out_key e)]"]
      by (auto simp: Let_def)
  qed
qed

lemma sorted_filter_takeWhile:
  fixes g :: "'b::linorder"
  assumes "sorted (map f xs)"
  shows "filter (\<lambda>x. f x < g) xs = takeWhile (\<lambda>x. f x < g) xs"
  using assms
proof (induction xs)
  case Nil
  then show ?case by simp
next
  case (Cons x xs)
  show ?case
  proof (cases "f x < g")
    case True
    then show ?thesis using Cons by simp
  next
    case False
    have "\<forall>y\<in>set xs. \<not> f y < g" using Cons.prems False by auto
    then have "filter (\<lambda>x. f x < g) xs = []" by (simp add: filter_empty_conv)
    then show ?thesis using False by simp
  qed
qed

text \<open>
  The decoys of one source entry: sorted by index, none with the real index, at most
  \<open>max mixIn 1\<close> of them.
\<close>

lemma decoys_properties:
  fixes td daemon_outs mix
  defines "decoys \<equiv> paste_mixin (globalOutputIndex td) mix
                      (sort_key global_amount_index daemon_outs) []"
  shows "sorted (map fst decoys)"
    and "\<forall>a\<in>set decoys. fst a \<noteq> globalOutputIndex td"
    and "length decoys \<le> max (unat mix) 1"
    and "daemon_outs = [] \<Longrightarrow> decoys = []"
proof -
  let ?g = "globalOutputIndex td"
  let ?srt = "sort_key global_amount_index daemon_outs"
  let ?cands = "map (\<lambda>e. (global_amount_index e, out_key e))
                  (filter (\<lambda>e. ?g \<noteq> global_amount_index e) ?srt)"
  obtain n where n: "decoys = take n ?cands"
    using paste_mixin_prefix[of ?g mix ?srt "[]"] unfolding decoys_def by auto
  have "map fst ?cands = map global_amount_index (filter (\<lambda>e. ?g \<noteq> global_amount_index e) ?srt)"
    by (simp add: comp_def)
  moreover have "sorted (map global_amount_index (filter (\<lambda>e. ?g \<noteq> global_amount_index e) ?srt))"
    by (rule sorted_filter) (rule sorted_sort_key)
  ultimately have "sorted (map fst ?cands)" by (simp add: comp_def)
  then show "sorted (map fst decoys)"
    unfolding n by (simp add: take_map[symmetric] sorted_wrt_take del: take_map)
  have "\<forall>a\<in>set ?cands. fst a \<noteq> ?g" by auto
  then show "\<forall>a\<in>set decoys. fst a \<noteq> ?g"
    unfolding n using in_set_takeD by fast
  show "length decoys \<le> max (unat mix) 1"
    unfolding decoys_def using length_paste_mixin[of ?g mix ?srt "[]"] by simp
  show "daemon_outs = [] \<Longrightarrow> decoys = []"
    unfolding decoys_def by simp
qed

lemma prepare_source_properties:
  fixes td daemon_outs mix
  defines "src \<equiv> prepare_source td (sort_key global_amount_index daemon_outs) mix"
  defines "g \<equiv> globalOutputIndex td"
  shows "real_output src < length (outputs src)"
    and "outputs src ! real_output src = (g, outputKey td)"
    and "real_output src = length (filter (\<lambda>a. fst a < g) (outputs src))"
    and "filter (\<lambda>a. fst a = g) (outputs src) = [(g, outputKey td)]"
    and "sorted (map fst (outputs src))"
    and "length (outputs src) \<le> max (unat mix) 1 + 1"
    and "daemon_outs = [] \<Longrightarrow> outputs src = [(g, outputKey td)] \<and> real_output src = 0"
proof -
  define decoys where "decoys = paste_mixin g mix (sort_key global_amount_index daemon_outs) []"
  define pos where "pos = length (takeWhile (\<lambda>a. \<not> g \<le> fst a) decoys)"
  have srt: "sorted (map fst decoys)" and ne: "\<forall>a\<in>set decoys. fst a \<noteq> g"
    and len: "length decoys \<le> max (unat mix) 1"
    and emp: "daemon_outs = [] \<Longrightarrow> decoys = []"
    using decoys_properties[where td = td and mix = mix and daemon_outs = daemon_outs]
    unfolding decoys_def g_def by blast+
  have P: "(\<lambda>a. \<not> g \<le> fst a) = (\<lambda>a::output_entry. fst a < g)" by (auto simp: not_le)
  have out: "outputs src = takeWhile (\<lambda>a. fst a < g) decoys @ [(g, outputKey td)]
                             @ dropWhile (\<lambda>a. fst a < g) decoys"
    and ro: "real_output src = pos"
    unfolding src_def prepare_source_def pos_def decoys_def g_def Let_def
    using P[unfolded g_def]
    by (simp_all add: takeWhile_eq_take[symmetric] dropWhile_eq_drop[symmetric])
  have pos: "pos = length (takeWhile (\<lambda>a. fst a < g) decoys)"
    unfolding pos_def P ..
  show "real_output src < length (outputs src)"
    unfolding ro out pos by simp
  show "outputs src ! real_output src = (g, outputKey td)"
    unfolding ro out pos by (simp add: nth_append)
  have ft: "filter (\<lambda>a. fst a < g) decoys = takeWhile (\<lambda>a. fst a < g) decoys"
    using sorted_filter_takeWhile[OF srt] .
  have "filter (\<lambda>a. fst a < g) decoys
          = filter (\<lambda>a. fst a < g) (takeWhile (\<lambda>a. fst a < g) decoys)
            @ filter (\<lambda>a. fst a < g) (dropWhile (\<lambda>a. fst a < g) decoys)"
    by (metis filter_append takeWhile_dropWhile_id)
  moreover note ft
  moreover have ftw: "filter (\<lambda>a. fst a < g) (takeWhile (\<lambda>a. fst a < g) decoys)
                   = takeWhile (\<lambda>a. fst a < g) decoys"
    by (rule filter_True) (auto dest: set_takeWhileD)
  ultimately have fd: "filter (\<lambda>a. fst a < g) (dropWhile (\<lambda>a. fst a < g) decoys) = []"
    by simp
  show "real_output src = length (filter (\<lambda>a. fst a < g) (outputs src))"
    unfolding ro out pos using fd ftw by simp
  have "filter (\<lambda>a. fst a = g) decoys = []"
    using ne by (simp add: filter_empty_conv)
  then have "filter (\<lambda>a. fst a = g) (takeWhile (\<lambda>a. fst a < g) decoys) = []"
    and "filter (\<lambda>a. fst a = g) (dropWhile (\<lambda>a. fst a < g) decoys) = []"
    by (auto simp: filter_empty_conv dest: set_takeWhileD set_dropWhileD)
  then show "filter (\<lambda>a. fst a = g) (outputs src) = [(g, outputKey td)]"
    unfolding out by simp
  have dl: "\<forall>a\<in>set (dropWhile (\<lambda>a. fst a < g) decoys). g \<le> fst a"
    using fd by (auto simp: filter_empty_conv not_less)
  have tl: "\<forall>a\<in>set (takeWhile (\<lambda>a. fst a < g) decoys). fst a \<le> g"
    by (auto dest: set_takeWhileD)
  have "map fst decoys = map fst (takeWhile (\<lambda>a. fst a < g) decoys)
                           @ map fst (dropWhile (\<lambda>a. fst a < g) decoys)"
    by (metis map_append takeWhile_dropWhile_id)
  then have "sorted (map fst (takeWhile (\<lambda>a. fst a < g) decoys)
                           @ map fst (dropWhile (\<lambda>a. fst a < g) decoys))"
    using srt by simp
  then have "sorted (map fst (takeWhile (\<lambda>a. fst a < g) decoys))"
    and "sorted (map fst (dropWhile (\<lambda>a. fst a < g) decoys))"
    unfolding sorted_append by blast+
  then show "sorted (map fst (outputs src))"
    unfolding out using dl tl by (fastforce simp: sorted_append)
  have "length (takeWhile (\<lambda>a. fst a < g) decoys) + length (dropWhile (\<lambda>a. fst a < g) decoys)
          = length decoys"
    by (metis length_append takeWhile_dropWhile_id)
  then have "length (outputs src) = length decoys + 1"
    unfolding out by simp
  then show "length (outputs src) \<le> max (unat mix) 1 + 1"
    using len by simp
  show "outputs src = [(g, outputKey td)] \<and> real_output src = 0" if "daemon_outs = []"
    unfolding ro out pos using emp[OF that] by simp
qed

text \<open>
  The loop appends one prepared entry per coin, built from the sorted decoy set of its
  rank; sorting the set of one rank leaves the sets of the later ranks as they were.
\<close>

lemma prepareInputs_nth:
  assumes "prepareInputs tds decoy_sets acc mix i = Some (sources, sorted_sets)"
  shows "length sources = length acc + length tds \<and>
         take (length acc) sources = acc \<and>
         (\<forall>k<length tds.
            (decoy_sets \<noteq> [] \<longrightarrow> i + k < length decoy_sets) \<and>
            sources ! (length acc + k)
              = prepare_source (tds ! k)
                  (sort_key global_amount_index
                     (if decoy_sets \<noteq> [] then outs_for_amount.outs (decoy_sets ! (i + k))
                      else []))
                  mix)"
  using assms
proof (induction tds arbitrary: acc i decoy_sets)
  case Nil
  then show ?case by simp
next
  case (Cons td tds)
  let ?sorted = "sort_key global_amount_index
                   (if decoy_sets \<noteq> [] then outs_for_amount.outs (decoy_sets ! i) else [])"
  let ?src = "prepare_source td ?sorted mix"
  let ?sets = "if decoy_sets = [] then decoy_sets
               else decoy_sets[i := (decoy_sets ! i)\<lparr>outs_for_amount.outs := ?sorted\<rparr>]"
  from Cons.prems have ok: "decoy_sets \<noteq> [] \<longrightarrow> i < length decoy_sets"
    and rest: "prepareInputs tds ?sets (acc @ [?src]) mix (Suc i) = Some (sources, sorted_sets)"
    by (auto simp: Let_def split: if_splits)
  have same: "(?sets \<noteq> []) = (decoy_sets \<noteq> [])" "length ?sets = length decoy_sets"
    by simp_all
  have later: "outs_for_amount.outs (?sets ! (Suc i + k))
                 = outs_for_amount.outs (decoy_sets ! (Suc i + k))" for k
    by simp
  from Cons.IH[OF rest] have
    len: "length sources = length acc + 1 + length tds" and
    tk: "take (length acc + 1) sources = acc @ [?src]" and
    nth: "\<forall>k<length tds.
            (decoy_sets \<noteq> [] \<longrightarrow> Suc i + k < length decoy_sets) \<and>
            sources ! (length acc + 1 + k)
              = prepare_source (tds ! k)
                  (sort_key global_amount_index
                     (if decoy_sets \<noteq> [] then outs_for_amount.outs (decoy_sets ! (Suc i + k))
                      else []))
                  mix"
    unfolding same later by simp_all
  have tk': "take (length acc) sources = acc"
    using arg_cong[OF tk, of "take (length acc)"] by (simp add: min_def)
  have here: "sources ! length acc = ?src"
  proof -
    have "sources ! length acc = take (length acc + 1) sources ! length acc" by simp
    then show ?thesis unfolding tk by simp
  qed
  have "(decoy_sets \<noteq> [] \<longrightarrow> i + k < length decoy_sets) \<and>
            sources ! (length acc + k)
              = prepare_source ((td # tds) ! k)
                  (sort_key global_amount_index
                     (if decoy_sets \<noteq> [] then outs_for_amount.outs (decoy_sets ! (i + k))
                      else []))
                  mix" if "k < length (td # tds)" for k
  proof (cases k)
    case 0
    then show ?thesis using ok here by simp
  next
    case (Suc j)
    then have "j < length tds" using that by simp
    then show ?thesis using nth Suc by simp
  qed
  then show ?case using len tk' by simp
qed

text \<open>
  The two calls of the pipeline. A send accepted with the mixin zero is a call of
  \<^verbatim>\<open>doSendTransaction\<close> on a context without decoy sets; a decoy request that
  \<^verbatim>\<open>makeSendRequest\<close> returns has a mixin that is not zero, and so has every decoy request
  outstanding later, whose context the callback receives with the response stored.
\<close>

lemma makeSendRequest_direct_call:
  assumes "makeSendRequest env s events trs fe ext 0 unlockTimestamp policy randomGenerator
             = Some (s', events', Inr (tid, req))"
  shows "\<exists>s0 ctx. pipeline_context ctx \<and> SendTransactionContext.outs ctx = [] \<and>
                  mixIn ctx = 0 \<and>
                  doSendTransaction env s0 ctx events = Some (s', events', req)"
proof -
  from assms obtain neededMoney where
    needed: "countNeededMoney fe trs = Inr neededMoney"
    by (auto simp: makeSendRequest_def split: if_splits sum.splits)
  obtain found selected where
    sel: "selectTransfersToSend env s neededMoney True (dustThreshold policy) []
            randomGenerator = (found, selected)"
    by (cases "selectTransfersToSend env s neededMoney True (dustThreshold policy) []
            randomGenerator")
  obtain tid' c where
    new: "addNewTransaction (m_transactionsCache s) neededMoney fe ext trs unlockTimestamp
            = (tid', c)"
    by (cases "addNewTransaction (m_transactionsCache s) neededMoney fe ext trs
            unlockTimestamp")
  let ?ctx = "\<lparr>transactionId = tid', outs = [], foundMoney = found,
               selectedTransfers = selected, dustPolicy = policy, mixIn = 0\<rparr>"
  have "doSendTransaction env (s\<lparr>m_transactionsCache := c\<rparr>) ?ctx events
          = Some (s', events', req)"
    using assms needed sel new
    by (auto simp: makeSendRequest_def Let_def
        split: if_splits sum.splits option.splits)
  moreover have "pipeline_context ?ctx" "SendTransactionContext.outs ?ctx = []"
    "mixIn ?ctx = 0"
    by (simp_all add: pipeline_context_def)
  ultimately show ?thesis by blast
qed

lemma doSendTransaction_no_decoy_request:
  "doSendTransaction env s ctx events = Some (s', events', Some req) \<Longrightarrow>
     \<exists>tx ctx'. req = WalletRelayTransactionRequest tx ctx'"
  by (auto simp: doSendTransaction_def Let_def pushCompleteEvent_eq
      split: if_splits option.splits sum.splits prod.splits)

lemma makeSendRequest_decoy_request_mixed:
  assumes "makeSendRequest env s events trs fe ext mix unlockTimestamp policy randomGenerator
             = Some (s', events', Inr (tid, req))"
  shows "decoy_request_mixed \<lparr>sender = s', queue = events', outstanding = req\<rparr>"
proof (cases "mix = 0")
  case True
  from makeSendRequest_direct_call[OF assms[unfolded True]]
  obtain s0 ctx where "doSendTransaction env s0 ctx events = Some (s', events', req)" by blast
  then show ?thesis
    using doSendTransaction_no_decoy_request[of env s0 ctx events s' events']
    by (cases req) (auto simp: decoy_request_mixed_def)
next
  case False
  then show ?thesis using assms
    by (auto simp: makeSendRequest_def Let_def decoy_request_mixed_def
        makeGetRandomOutsRequest_def split: if_splits sum.splits prod.splits)
qed

lemma deliver_decoy_request_mixed:
  assumes "decoy_request_mixed sop" and "deliver env sop sig = Some sop'"
  shows "decoy_request_mixed sop'"
proof (cases sig)
  case StopSignal
  then show ?thesis using assms
    by (auto simp: decoy_request_mixed_def split: option.splits WalletRequest.splits)
next
  case (Resolved ec response)
  show ?thesis
  proof (cases "outstanding sop")
    case None
    then show ?thesis using assms Resolved by simp
  next
    case (Some request)
    show ?thesis
    proof (cases request)
      case (WalletGetRandomOutsByAmountsRequest amounts outsCount ctx)
      from assms(2) Resolved Some WalletGetRandomOutsByAmountsRequest
      obtain s' events' req where
        call: "sendTransactionRandomOutsByAmount env (sender sop)
                 (ctx\<lparr>SendTransactionContext.outs := response\<rparr>) (queue sop) ec
                 = Some (s', events', req)" and
        sop': "sop' = \<lparr>sender = s', queue = events', outstanding = req\<rparr>"
        by (auto split: option.splits)
      have "req = None \<or> (\<exists>tx ctx'. req = Some (WalletRelayTransactionRequest tx ctx'))"
        using call doSendTransaction_no_decoy_request
        by (cases req)
           (auto simp: sendTransactionRandomOutsByAmount_def Let_def pushCompleteEvent_eq
             split: if_splits)
      then show ?thesis using sop' by (auto simp: decoy_request_mixed_def)
    next
      case (WalletRelayTransactionRequest tx ctx)
      then show ?thesis using assms(2) Resolved Some
        by (auto simp: decoy_request_mixed_def split: prod.splits)
    qed
  qed
qed

lemma run_decoy_request_mixed:
  assumes "decoy_request_mixed sop" and "run env sop sigs = Some sop'"
  shows "decoy_request_mixed sop'"
  using assms
proof (induction sigs arbitrary: sop)
  case Nil
  then show ?case by simp
next
  case (Cons sig sigs)
  from Cons.prems(2) obtain mid where
    d: "deliver env sop sig = Some mid" and r: "run env mid sigs = Some sop'"
    by (auto split: option.splits)
  show ?case using Cons.IH[OF deliver_decoy_request_mixed[OF Cons.prems(1) d] r] .
qed

lemma decoy_callback_context:
  assumes "decoy_request_mixed sop"
    and "outstanding sop = Some (WalletGetRandomOutsByAmountsRequest amounts outsCount ctx)"
  shows "pipeline_context (ctx\<lparr>SendTransactionContext.outs := response\<rparr>)"
  using assms by (simp add: decoy_request_mixed_def pipeline_context_def)

text \<open>
  C4. For every context of the pipeline and every selected coin, the source entry that
  \<^verbatim>\<open>prepareInputs\<close> builds has the real output at the recorded position, and that
  position is its rank: the number of candidates in the list whose global index is
  smaller. The list is ascending in the global index, the real output is its only entry
  with the real index, and it has at most \<open>mixIn + 1\<close> entries.
\<close>

theorem C4_source_entries:
  assumes "pipeline_context ctx"
    and "prepareInputs (selectedTransfers ctx) (SendTransactionContext.outs ctx) []
           (mixIn ctx) 0 = Some (sources, sorted_sets)"
    and "k < length (selectedTransfers ctx)"
  shows "k < length sources \<and>
         real_output (sources ! k) < length (outputs (sources ! k)) \<and>
         outputs (sources ! k) ! real_output (sources ! k)
           = (globalOutputIndex (selectedTransfers ctx ! k), outputKey (selectedTransfers ctx ! k)) \<and>
         real_output (sources ! k)
           = length (filter (\<lambda>a. fst a < globalOutputIndex (selectedTransfers ctx ! k))
                       (outputs (sources ! k))) \<and>
         sorted (map fst (outputs (sources ! k))) \<and>
         filter (\<lambda>a. fst a = globalOutputIndex (selectedTransfers ctx ! k)) (outputs (sources ! k))
           = [(globalOutputIndex (selectedTransfers ctx ! k), outputKey (selectedTransfers ctx ! k))] \<and>
         length (outputs (sources ! k)) \<le> unat (mixIn ctx) + 1"
proof -
  let ?tds = "selectedTransfers ctx"
  let ?sets = "SendTransactionContext.outs ctx"
  let ?d = "if ?sets \<noteq> [] then outs_for_amount.outs (?sets ! k) else []"
  from prepareInputs_nth[OF assms(2)] assms(3)
  have len: "length sources = length ?tds"
    and src: "sources ! k = prepare_source (?tds ! k) (sort_key global_amount_index ?d) (mixIn ctx)"
    by auto
  note p = prepare_source_properties[where td = "?tds ! k" and daemon_outs = ?d
      and mix = "mixIn ctx", folded src]
  have bound: "length (outputs (sources ! k)) \<le> unat (mixIn ctx) + 1"
  proof (cases "mixIn ctx = 0")
    case False
    then have "0 < unat (mixIn ctx)" by (simp add: unat_gt_0)
    then show ?thesis using p(6) by simp
  next
    case True
    then have "?sets = []" using assms(1) by (simp add: pipeline_context_def)
    then show ?thesis using p(7) by simp
  qed
  show ?thesis
    using len assms(3) p(1-5) bound by simp
qed

theorem C4_source_entries_witness:
  "pipeline_context short_context \<and>
   map_option fst (prepareInputs (selectedTransfers short_context)
       (SendTransactionContext.outs short_context) [] (mixIn short_context) 0)
     = Some [\<lparr>outputs = [(3, ''a''), (5, ''b''), (7, ''K''), (11, ''c'')],
              real_output = 2, real_out_tx_key = ''P'', real_output_in_tx_index = 0,
              tx_source_entry.amount = 2000\<rparr>] \<and>
   length [(3 :: u64, ''a''), (5, ''b''), (7, ''K''), (11, ''c'')]
     \<le> unat (mixIn short_context) + 1"
proof -
  have pc: "pipeline_context short_context"
    by (simp add: pipeline_context_def short_context_def)
  have run: "prepareInputs (selectedTransfers short_context)
       (SendTransactionContext.outs short_context) [] (mixIn short_context) 0
     = Some ([\<lparr>outputs = [(3, ''a''), (5, ''b''), (7, ''K''), (11, ''c'')],
              real_output = 2, real_out_tx_key = ''P'', real_output_in_tx_index = 0,
              tx_source_entry.amount = 2000\<rparr>], SendTransactionContext.outs short_context)"
    by code_simp
  have k: "(0::nat) < length (selectedTransfers short_context)"
    by (simp add: short_context_def)
  from C4_source_entries[OF pc run k]
  have "length (outputs ([\<lparr>outputs = [(3, ''a''), (5, ''b''), (7, ''K''), (11, ''c'')],
              real_output = 2, real_out_tx_key = ''P'', real_output_in_tx_index = 0,
              tx_source_entry.amount = 2000\<rparr>] ! 0)) \<le> unat (mixIn short_context) + 1"
    by blast
  then show ?thesis using pc run by simp
qed
section \<open>The coin selector\<close>

text \<open>Popping from a non-empty vector removes exactly the element returned.\<close>

lemma mset_popRandomValue:
  assumes "vec \<noteq> []" and "popRandomValue g vec = (r, vec', g')"
  shows "add_mset r (mset vec') = mset vec"
proof -
  obtain idx where idx: "idx < length vec" and r: "r = vec ! idx"
    and v: "vec' = butlast (if idx + 1 \<noteq> length vec then vec[idx := last vec] else vec)"
  proof (cases g)
    case Nil
    show ?thesis
      using assms Nil that[of 0]
      by (auto simp: popRandomValue_def uniform_int_distribution_def)
  next
    case (Cons x xs)
    have "x mod (length vec - 1 + 1) < length vec" using assms(1) by simp
    then show ?thesis
      using assms Cons that[of "x mod (length vec - 1 + 1)"]
      by (auto simp: popRandomValue_def uniform_int_distribution_def)
  qed
  have split: "mset vec = add_mset (last vec) (mset (butlast vec))"
    using assms(1) by (metis append_butlast_last_id mset.simps(2) mset_append union_mset_add_mset_right add.right_neutral mset.simps(1))
  show ?thesis
  proof (cases "idx + 1 = length vec")
    case True
    then have "idx = length vec - 1" by simp
    then have "vec ! idx = last vec" using last_conv_nth[OF assms(1)] by simp
    then show ?thesis using True v r split by simp
  next
    case False
    then have i: "idx < length (butlast vec)" using idx by simp
    have "idx \<noteq> length vec - 1" using False idx by arith
    then have "vec' = (butlast vec)[idx := last vec]"
      using v False by (simp add: butlast_list_update)
    then have "mset vec' = add_mset (last vec) (mset (butlast vec) - {#butlast vec ! idx#})"
      using i by (simp add: mset_update)
    moreover have "butlast vec ! idx = r" using i r by (simp add: nth_butlast)
    moreover have "r \<in># mset (butlast vec)" using i \<open>butlast vec ! idx = r\<close>
      by (metis nth_mem_mset)
    ultimately show ?thesis using split by simp
  qed
qed

lemma select_loop_stop:
  "\<not> (found < needed \<and> (T \<noteq> [] \<or> D \<noteq> [])) \<Longrightarrow>
     select_loop unlocked needed T D g flag found sel = (found, sel)"
  by (subst select_loop.simps) auto

text \<open>One round of the loop, when it runs: one index leaves the pools and its coin is selected.\<close>

lemma select_loop_step:
  assumes "found < needed" and "T \<noteq> [] \<or> D \<noteq> []" and "flag \<longrightarrow> D \<noteq> []"
  shows "\<exists>idx T' D' g'.
           select_loop unlocked needed T D g flag found sel
             = select_loop unlocked needed T' D' g' False
                 (found + TransactionOutputInformation.amount (unlocked ! idx))
                 (sel @ [unlocked ! idx]) \<and>
           add_mset idx (mset T' + mset D') = mset T + mset D"
proof -
  consider (dust) "flag" | (spendable) "\<not> flag" "T \<noteq> []" | (fallback) "\<not> flag" "T = []"
    by blast
  then show ?thesis
  proof cases
    case dust
    obtain idx D' g' where p: "popRandomValue g D = (idx, D', g')" by (cases "popRandomValue g D")
    have ne: "D \<noteq> []" using assms(3) dust by simp
    have "select_loop unlocked needed T D g flag found sel
             = select_loop unlocked needed T D' g' False
                 (found + TransactionOutputInformation.amount (unlocked ! idx))
                 (sel @ [unlocked ! idx])"
      using assms(1,2) dust p by (subst select_loop.simps) simp
    moreover have "add_mset idx (mset T + mset D') = mset T + mset D"
      using mset_popRandomValue[OF ne p] by simp
    ultimately show ?thesis by blast
  next
    case spendable
    obtain idx T' g' where p: "popRandomValue g T = (idx, T', g')" by (cases "popRandomValue g T")
    have "select_loop unlocked needed T D g flag found sel
             = select_loop unlocked needed T' D g' False
                 (found + TransactionOutputInformation.amount (unlocked ! idx))
                 (sel @ [unlocked ! idx])"
      using assms(1,2) spendable p by (subst select_loop.simps) simp
    moreover have "add_mset idx (mset T' + mset D) = mset T + mset D"
      using mset_popRandomValue[OF spendable(2) p] by simp
    ultimately show ?thesis by blast
  next
    case fallback
    obtain idx D' g' where p: "popRandomValue g D = (idx, D', g')" by (cases "popRandomValue g D")
    have ne: "D \<noteq> []" using assms(2) fallback by simp
    have "select_loop unlocked needed T D g flag found sel
             = select_loop unlocked needed T D' g' False
                 (found + TransactionOutputInformation.amount (unlocked ! idx))
                 (sel @ [unlocked ! idx])"
      using assms(1,2) fallback p by (subst select_loop.simps) simp
    moreover have "add_mset idx (mset T + mset D') = mset T + mset D"
      using mset_popRandomValue[OF ne p] by simp
    ultimately show ?thesis by blast
  qed
qed

text \<open>
  What the loop returns, from any state in which a forced dust pick has a dust index to
  take: the coins picked are appended, their amounts are added (as words), the picked
  indices come from the pools, the pools are used up when the result stays below the
  needed money, and before the last pick the running sum was below the needed money.
\<close>

lemma select_loop_result:
  assumes "flag \<longrightarrow> D \<noteq> []"
  shows "\<exists>picked.
           select_loop unlocked needed T D g flag found sel
             = (found + sum_list (map TransactionOutputInformation.amount (map ((!) unlocked) picked)),
                sel @ map ((!) unlocked) picked) \<and>
           mset picked \<subseteq># mset T + mset D \<and>
           (found + sum_list (map TransactionOutputInformation.amount (map ((!) unlocked) picked))
              < needed \<longrightarrow> mset picked = mset T + mset D) \<and>
           (picked \<noteq> [] \<longrightarrow>
              found + sum_list (map TransactionOutputInformation.amount
                                 (map ((!) unlocked) (butlast picked))) < needed)"
  using assms
proof (induction "length T + length D" arbitrary: T D g flag found sel rule: less_induct)
  case less
  show ?case
  proof (cases "found < needed \<and> (T \<noteq> [] \<or> D \<noteq> [])")
    case False
    have "select_loop unlocked needed T D g flag found sel = (found, sel)"
      using select_loop_stop[OF False] .
    moreover have "found < needed \<longrightarrow> mset [] = mset T + mset D"
      using False by auto
    ultimately show ?thesis by (intro exI[of _ "[]"]) simp
  next
    case True
    from select_loop_step[of found needed T D flag unlocked g sel] True less.prems
    obtain idx T' D' g' where
      step: "select_loop unlocked needed T D g flag found sel
             = select_loop unlocked needed T' D' g' False
                 (found + TransactionOutputInformation.amount (unlocked ! idx))
                 (sel @ [unlocked ! idx])" and
      pools: "add_mset idx (mset T' + mset D') = mset T + mset D"
      by blast
    have "size (add_mset idx (mset T' + mset D')) = size (mset T + mset D)"
      using pools by simp
    then have smaller: "length T' + length D' < length T + length D" by simp
    let ?found' = "found + TransactionOutputInformation.amount (unlocked ! idx)"
    from less.hyps[OF smaller, of False g' ?found' "sel @ [unlocked ! idx]"]
    obtain picked where
      res: "select_loop unlocked needed T' D' g' False ?found' (sel @ [unlocked ! idx])
             = (?found' + sum_list (map TransactionOutputInformation.amount (map ((!) unlocked) picked)),
                (sel @ [unlocked ! idx]) @ map ((!) unlocked) picked)" and
      sub: "mset picked \<subseteq># mset T' + mset D'" and
      all: "?found' + sum_list (map TransactionOutputInformation.amount (map ((!) unlocked) picked))
              < needed \<longrightarrow> mset picked = mset T' + mset D'" and
      last: "picked \<noteq> [] \<longrightarrow>
              ?found' + sum_list (map TransactionOutputInformation.amount
                                 (map ((!) unlocked) (butlast picked))) < needed"
      by auto
    let ?picked = "idx # picked"
    have 1: "select_loop unlocked needed T D g flag found sel
             = (found + sum_list (map TransactionOutputInformation.amount (map ((!) unlocked) ?picked)),
                sel @ map ((!) unlocked) ?picked)"
      unfolding step res by (simp add: add.assoc)
    have 2: "mset ?picked \<subseteq># mset T + mset D"
      using sub pools by (metis mset.simps(2) mset_subset_eq_add_mset_cancel)
    have 3: "found + sum_list (map TransactionOutputInformation.amount (map ((!) unlocked) ?picked))
              < needed \<longrightarrow> mset ?picked = mset T + mset D"
      using all pools by (simp add: add.assoc)
    have 4: "found + sum_list (map TransactionOutputInformation.amount
                                 (map ((!) unlocked) (butlast ?picked))) < needed"
      using last True by (cases "picked = []") (simp_all add: add.assoc)
    show ?thesis using 1 2 3 4 by blast
  qed
qed

lemma unat_sum_list_u64:
  "sum_list (map unat ws) < 2^64 \<Longrightarrow> unat (sum_list ws :: u64) = sum_list (map unat ws)"
proof (induction ws)
  case Nil
  then show ?case by simp
next
  case (Cons w ws)
  then have ih: "unat (sum_list ws) = sum_list (map unat ws)" by simp
  have "unat w + unat (sum_list ws) < 2 ^ LENGTH(64)" using Cons.prems ih by simp
  then have "unat (w + sum_list ws) = unat w + unat (sum_list ws)"
    by (simp only: unat_add_lem)
  then show ?case using ih by simp
qed

lemma map_nth_filter:
  "map ((!) xs) (filter (\<lambda>i. Q (xs ! i)) [0..<length xs]) = filter Q xs"
proof -
  have "filter Q (map ((!) xs) [0..<length xs]) = map ((!) xs) (filter (Q \<circ> (!) xs) [0..<length xs])"
    by (rule filter_map)
  moreover have "map ((!) xs) [0..<length xs] = xs" by (rule map_nth)
  ultimately show ?thesis by (simp add: comp_def)
qed

text \<open>
  C8, as the code has it. The found money is the sum of the selected amounts in 64-bit
  arithmetic, hence their exact sum whenever that sum is below \<open>2^64\<close>. The selected coins
  are unused outputs of the container, each taken at most once. The loop stops as soon
  as the found money reaches the needed money or the pools are empty: a result below the
  needed money means that every unused output was selected, and before the last pick the
  running sum was below the needed money.
\<close>

theorem C8_coin_selector:
  "case selectTransfersToSend env s needed addDust dust [] randomGenerator of
     (found, sel) \<Rightarrow>
       found = sum_list (map TransactionOutputInformation.amount sel) \<and>
       (sum_list (map (\<lambda>c. unat (TransactionOutputInformation.amount c)) sel) < 2^64 \<longrightarrow>
          unat found = sum_list (map (\<lambda>c. unat (TransactionOutputInformation.amount c)) sel)) \<and>
       mset sel \<subseteq># mset (filter (\<lambda>c. \<not> isUsed (m_transactionsCache s) c) (getOutputs env)) \<and>
       (\<forall>c\<in>set sel. \<not> isUsed (m_transactionsCache s) c) \<and>
       (found < needed \<longrightarrow>
          mset sel = mset (filter (\<lambda>c. \<not> isUsed (m_transactionsCache s) c) (getOutputs env))) \<and>
       (sel \<noteq> [] \<longrightarrow>
          sum_list (map TransactionOutputInformation.amount (butlast sel)) < needed)"
proof -
  define unlocked where "unlocked = getOutputs env"
  define unused where
    "unused = filter (\<lambda>i. \<not> isUsed (m_transactionsCache s) (unlocked ! i)) [0..<length unlocked]"
  define T where
    "T = filter (\<lambda>i. dust < TransactionOutputInformation.amount (unlocked ! i)) unused"
  define D where
    "D = filter (\<lambda>i. \<not> dust < TransactionOutputInformation.amount (unlocked ! i)) unused"
  have pools: "mset T + mset D = mset unused"
    unfolding T_def D_def by simp
  have coins: "map ((!) unlocked) unused
                 = filter (\<lambda>c. \<not> isUsed (m_transactionsCache s) c) unlocked"
    unfolding unused_def by (rule map_nth_filter)
  have call: "selectTransfersToSend env s needed addDust dust [] randomGenerator
                = select_loop unlocked needed T D randomGenerator (addDust \<and> D \<noteq> []) 0 []"
    unfolding selectTransfersToSend_def Let_def T_def D_def unused_def unlocked_def ..
  from select_loop_result[of "addDust \<and> D \<noteq> []" D unlocked needed T randomGenerator 0 "[]"]
  obtain picked where
    res: "select_loop unlocked needed T D randomGenerator (addDust \<and> D \<noteq> []) 0 []
            = (sum_list (map TransactionOutputInformation.amount (map ((!) unlocked) picked)),
               map ((!) unlocked) picked)" and
    sub: "mset picked \<subseteq># mset unused" and
    all: "sum_list (map TransactionOutputInformation.amount (map ((!) unlocked) picked)) < needed
            \<longrightarrow> mset picked = mset unused" and
    last: "picked \<noteq> [] \<longrightarrow>
             sum_list (map TransactionOutputInformation.amount
                        (map ((!) unlocked) (butlast picked))) < needed"
    unfolding pools by auto
  define sel where "sel = map ((!) unlocked) picked"
  define found where "found = sum_list (map TransactionOutputInformation.amount sel)"
  have r: "selectTransfersToSend env s needed addDust dust [] randomGenerator = (found, sel)"
    unfolding call res found_def sel_def ..
  have exact: "unat found = sum_list (map (\<lambda>c. unat (TransactionOutputInformation.amount c)) sel)"
    if "sum_list (map (\<lambda>c. unat (TransactionOutputInformation.amount c)) sel) < 2^64"
    using unat_sum_list_u64[of "map TransactionOutputInformation.amount sel"] that
    unfolding found_def by (simp add: comp_def)
  have "image_mset ((!) unlocked) (mset picked) \<subseteq># image_mset ((!) unlocked) (mset unused)"
    using sub by (rule image_mset_subseteq_mono)
  then have msub: "mset sel \<subseteq># mset (filter (\<lambda>c. \<not> isUsed (m_transactionsCache s) c) unlocked)"
    unfolding sel_def using coins by (metis mset_map)
  have unused_only: "\<forall>c\<in>set sel. \<not> isUsed (m_transactionsCache s) c"
  proof
    fix c assume "c \<in> set sel"
    then have "c \<in># mset (filter (\<lambda>c. \<not> isUsed (m_transactionsCache s) c) unlocked)"
      using msub by (metis mset_subset_eqD set_mset_mset)
    then show "\<not> isUsed (m_transactionsCache s) c" by simp
  qed
  have exhausted: "mset sel = mset (filter (\<lambda>c. \<not> isUsed (m_transactionsCache s) c) unlocked)"
    if "found < needed"
  proof -
    have "mset picked = mset unused" using all that unfolding found_def sel_def by simp
    then have "image_mset ((!) unlocked) (mset picked) = image_mset ((!) unlocked) (mset unused)"
      by simp
    then show ?thesis unfolding sel_def using coins by (metis mset_map)
  qed
  have before_last: "sum_list (map TransactionOutputInformation.amount (butlast sel)) < needed"
    if "sel \<noteq> []"
    using last that unfolding sel_def by (simp add: map_butlast)
  show ?thesis
    unfolding r using found_def exact msub unused_only exhausted before_last
    by (simp add: unlocked_def)
qed

theorem C8_coin_selector_witness:
  "selectTransfersToSend wallet_500 idle_sender 250 False 0 [] [0]
     = (500, getOutputs wallet_500) \<and>
   sum_list (map TransactionOutputInformation.amount (butlast (getOutputs wallet_500))) < 250"
proof -
  have run: "selectTransfersToSend wallet_500 idle_sender 250 False 0 [] [0]
               = (500, getOutputs wallet_500)"
    by code_simp
  have ne: "getOutputs wallet_500 \<noteq> []" by (simp add: wallet_500_def)
  from C8_coin_selector[where env = wallet_500 and s = idle_sender and needed = 250
      and addDust = False and dust = 0 and randomGenerator = "[0]"] ne
  have "sum_list (map TransactionOutputInformation.amount (butlast (getOutputs wallet_500))) < 250"
    unfolding run by simp
  with run show ?thesis by simp
qed

text \<open>
  The found money can be less than the sum of the selected amounts: with coins of
  \<open>2^63 - 2\<close> and \<open>2^64 - 1\<close> and a needed money of \<open>2^63 - 1\<close> both coins are selected and
  the 64-bit sum wraps to \<open>2^63 - 3\<close>.
\<close>

theorem C8_wrap_counterexample:
  "selectTransfersToSend rich_wallet idle_sender 9223372036854775807 False 0 [] []
     = (9223372036854775805, [rich_coin_1, rich_coin_2]) \<and>
   unat (9223372036854775805 :: u64)
     < unat (TransactionOutputInformation.amount rich_coin_1)
       + unat (TransactionOutputInformation.amount rich_coin_2)"
proof -
  have "selectTransfersToSend rich_wallet idle_sender 9223372036854775807 False 0 [] []
     = (9223372036854775805, [rich_coin_1, rich_coin_2])"
    by code_simp
  then show ?thesis by (simp add: rich_coin_1_def rich_coin_2_def)
qed

section \<open>At most one completion event\<close>

lemma completions_append [simp]:
  "completions tid (xs @ ys) = completions tid xs + completions tid ys"
  by (simp add: completions_def)

lemma completions_pushCompleteEvent:
  "pushCompleteEvent s events tid ec = (s', events') \<Longrightarrow>
     completions tid events' = completions tid events + 1"
  by (auto simp: pushCompleteEvent_eq completions_def)

lemma completions_notifyBalanceChanged [simp]:
  "completions tid (notifyBalanceChanged env s events) = completions tid events"
  by (simp add: notifyBalanceChanged_def Let_def completions_def)

text \<open>
  A call of \<^verbatim>\<open>doSendTransaction\<close> either queues one completion event and returns no
  request, or queues none and returns the relay request of the same transaction.
\<close>

lemma doSendTransaction_outcome:
  assumes "doSendTransaction env s context events = Some (s', events', req)"
  shows "(req = None \<and>
          completions (transactionId context) events'
            = completions (transactionId context) events + 1) \<or>
         (\<exists>tx ctx'. req = Some (WalletRelayTransactionRequest tx ctx') \<and>
          transactionId ctx' = transactionId context \<and>
          completions (transactionId context) events'
            = completions (transactionId context) events)"
proof (cases "m_isStoping s")
  case True
  then show ?thesis using assms
    by (auto simp: doSendTransaction_def split: prod.splits dest: completions_pushCompleteEvent)
next
  case False
  show ?thesis
  proof (cases "doSendTransaction_body env s context")
    case None
    then show ?thesis using assms False by (simp add: doSendTransaction_def)
  next
    case (Some r)
    show ?thesis
    proof (cases r)
      case (Inl e)
      then show ?thesis using assms False Some
        by (auto simp: doSendTransaction_def split: prod.splits
            dest: completions_pushCompleteEvent)
    next
      case (Inr p)
      obtain tx totalAmt sorted_outs where p: "p = (tx, totalAmt, sorted_outs)"
        by (cases p) auto
      show ?thesis using assms False Some Inr p
        by (auto simp: doSendTransaction_def Let_def)
    qed
  qed
qed

lemma sendTransactionRandomOutsByAmount_outcome:
  assumes "sendTransactionRandomOutsByAmount env s context events ec = Some (s', events', req)"
  shows "(req = None \<and>
          completions (transactionId context) events'
            = completions (transactionId context) events + 1) \<or>
         (\<exists>tx ctx'. req = Some (WalletRelayTransactionRequest tx ctx') \<and>
          transactionId ctx' = transactionId context \<and>
          completions (transactionId context) events'
            = completions (transactionId context) events)"
proof -
  let ?ec = "if m_isStoping s then Some TX_CANCELLED else ec"
  consider (failed) "?ec \<noteq> None"
    | (scanty) "?ec = None"
        "\<exists>out \<in> set (SendTransactionContext.outs context).
           length (outs_for_amount.outs out) < unat (mixIn context)"
    | (send) "?ec = None"
        "\<not> (\<exists>out \<in> set (SendTransactionContext.outs context).
              length (outs_for_amount.outs out) < unat (mixIn context))"
    by blast
  then show ?thesis
  proof cases
    case failed
    then have "pushCompleteEvent s events (transactionId context) ?ec = (s', events')"
      and "req = None"
      using assms
      by (auto simp: sendTransactionRandomOutsByAmount_def Let_def split: prod.splits if_splits)
    then show ?thesis using completions_pushCompleteEvent by blast
  next
    case scanty
    then have "pushCompleteEvent s events (transactionId context) (Some MIXIN_COUNT_TOO_BIG)
                 = (s', events')"
      and "req = None"
      using assms
      by (auto simp: sendTransactionRandomOutsByAmount_def Let_def split: prod.splits if_splits)
    then show ?thesis using completions_pushCompleteEvent by blast
  next
    case send
    then have "doSendTransaction env s context events = Some (s', events', req)"
      using assms
      by (auto simp: sendTransactionRandomOutsByAmount_def Let_def split: if_splits)
    then show ?thesis by (rule doSendTransaction_outcome)
  qed
qed

lemma relayTransactionCallback_outcome:
  assumes "relayTransactionCallback s context events ec = (s', events')"
  shows "completions (transactionId context) events'
           \<le> completions (transactionId context) events + 1"
  using assms
  by (auto simp: relayTransactionCallback_def split: if_splits
      dest: completions_pushCompleteEvent)

lemma deliver_at_most_once:
  assumes "at_most_once tid n sop" and "deliver env sop sig = Some sop'"
  shows "at_most_once tid n sop'"
proof (cases sig)
  case StopSignal
  then show ?thesis using assms by (auto simp: at_most_once_def split: option.splits)
next
  case (Resolved ec response)
  show ?thesis
  proof (cases "outstanding sop")
    case None
    then show ?thesis using assms Resolved by simp
  next
    case (Some request)
    show ?thesis
    proof (cases request)
      case (WalletGetRandomOutsByAmountsRequest amounts outsCount ctx)
      let ?ctx = "ctx\<lparr>SendTransactionContext.outs := response\<rparr>"
      from assms(2) Resolved Some WalletGetRandomOutsByAmountsRequest
      obtain s' events' req where
        call: "sendTransactionRandomOutsByAmount env (sender sop) ?ctx (queue sop) ec
                 = Some (s', events', req)" and
        sop': "sop' = \<lparr>sender = s', queue = events', outstanding = req\<rparr>"
        by (auto split: option.splits)
      have tid: "transactionId ?ctx = tid" and n: "completions tid (queue sop) = n"
        using assms(1) Some WalletGetRandomOutsByAmountsRequest
        by (simp_all add: at_most_once_def)
      from sendTransactionRandomOutsByAmount_outcome[OF call]
      show ?thesis unfolding tid using n sop' tid by (auto simp: at_most_once_def)
    next
      case (WalletRelayTransactionRequest tx ctx)
      from assms(2) Resolved Some WalletRelayTransactionRequest
      obtain s' events' where
        call: "relayTransactionCallback (sender sop) ctx (queue sop) ec = (s', events')" and
        sop': "sop' = \<lparr>sender = s', queue = events', outstanding = None\<rparr>"
        by (auto split: prod.splits)
      have tid: "transactionId ctx = tid" and n: "completions tid (queue sop) = n"
        using assms(1) Some WalletRelayTransactionRequest
        by (simp_all add: at_most_once_def)
      from relayTransactionCallback_outcome[OF call]
      show ?thesis unfolding tid using n sop' by (simp add: at_most_once_def)
    qed
  qed
qed

lemma run_at_most_once:
  assumes "at_most_once tid n sop" and "run env sop sigs = Some sop'"
  shows "at_most_once tid n sop'"
  using assms
proof (induction sigs arbitrary: sop)
  case Nil
  then show ?case by simp
next
  case (Cons sig sigs)
  from Cons.prems(2) obtain mid where
    d: "deliver env sop sig = Some mid" and r: "run env mid sigs = Some sop'"
    by (auto split: option.splits)
  show ?case using Cons.IH[OF deliver_at_most_once[OF Cons.prems(1) d] r] .
qed

text \<open>The state in which \<^verbatim>\<open>makeSendRequest\<close> leaves a send it has accepted.\<close>

lemma makeSendRequest_at_most_once:
  assumes "makeSendRequest env s events trs fe ext mix unlockTimestamp policy randomGenerator
             = Some (s', events', Inr (tid, req))"
  shows "at_most_once tid (completions tid events)
           \<lparr>sender = s', queue = events', outstanding = req\<rparr>"
proof -
  from assms obtain neededMoney where
    "countNeededMoney fe trs = Inr neededMoney"
    by (auto simp: makeSendRequest_def split: if_splits sum.splits prod.splits)
  obtain found selected where
    sel: "selectTransfersToSend env s neededMoney (0 = mix) (dustThreshold policy) []
            randomGenerator = (found, selected)"
    by (cases "selectTransfersToSend env s neededMoney (0 = mix) (dustThreshold policy) []
            randomGenerator")
  obtain tid' c where
    add: "addNewTransaction (m_transactionsCache s) neededMoney fe ext trs unlockTimestamp
            = (tid', c)"
    by (cases "addNewTransaction (m_transactionsCache s) neededMoney fe ext trs unlockTimestamp")
  define ctx where
    "ctx = \<lparr>transactionId = tid', outs = [], foundMoney = found,
                selectedTransfers = selected, dustPolicy = policy, mixIn = mix\<rparr>"
  have tidc: "transactionId ctx = tid'" by (simp add: ctx_def)
  show ?thesis
  proof (cases "mix = 0")
    case False
    then have "tid = tid'" "events' = events" "req = Some (makeGetRandomOutsRequest ctx)"
      using assms \<open>countNeededMoney fe trs = Inr neededMoney\<close> sel add
      by (auto simp: makeSendRequest_def Let_def ctx_def split: if_splits sum.splits)
    then show ?thesis
      using tidc by (simp add: at_most_once_def makeGetRandomOutsRequest_def)
  next
    case True
    then have "tid = tid'" and
      call: "doSendTransaction env (s\<lparr>m_transactionsCache := c\<rparr>) ctx events
               = Some (s', events', req)"
      using assms \<open>countNeededMoney fe trs = Inr neededMoney\<close> sel add
      by (auto simp: makeSendRequest_def Let_def ctx_def
          split: if_splits sum.splits option.splits)
    from doSendTransaction_outcome[OF call] show ?thesis
      unfolding tidc using \<open>tid = tid'\<close> tidc by (auto simp: at_most_once_def)
  qed
qed

text \<open>
  C6. From the state in which \<^verbatim>\<open>makeSendRequest\<close> leaves an accepted send, whatever
  sequence of stop signals and resolutions of the outstanding request the driver
  delivers, the queue gains at most one completion event of the transaction.
\<close>

theorem C6_at_most_one_completion:
  assumes "makeSendRequest env s events trs fe ext mix unlockTimestamp policy randomGenerator
             = Some (s', events', Inr (tid, req))"
    and "run env \<lparr>sender = s', queue = events', outstanding = req\<rparr> sigs = Some sop"
  shows "completions tid (queue sop) \<le> completions tid events + 1"
proof -
  have "at_most_once tid (completions tid events) sop"
    using run_at_most_once[OF makeSendRequest_at_most_once[OF assms(1)] assms(2)] .
  then show ?thesis
    by (cases "outstanding sop") (simp_all add: at_most_once_def)
qed

theorem C6_at_most_one_completion_witness:
  "makeSendRequest wallet_2000 idle_sender [] [transfer_1000] 10 [] 5 0 no_dust_policy []
     = Some (accepted_sender, [], Inr (0, Some decoy_request)) \<and>
   run wallet_2000 \<lparr>sender = accepted_sender, queue = [], outstanding = Some decoy_request\<rparr>
       [StopSignal, Resolved None (SendTransactionContext.outs short_context), Resolved None []]
     = Some cancelled_operation \<and>
   completions 0 (queue cancelled_operation) \<le> completions 0 [] + 1"
proof -
  have accepted:
    "makeSendRequest wallet_2000 idle_sender [] [transfer_1000] 10 [] 5 0 no_dust_policy []
       = Some (accepted_sender, [], Inr (0, Some decoy_request))"
    by code_simp
  have ran:
    "run wallet_2000 \<lparr>sender = accepted_sender, queue = [], outstanding = Some decoy_request\<rparr>
         [StopSignal, Resolved None (SendTransactionContext.outs short_context), Resolved None []]
       = Some cancelled_operation"
    by code_simp
  show ?thesis
    using accepted ran C6_at_most_one_completion[OF accepted ran] by (intro conjI)
qed

end
